theory Spec2Isabelle
  imports Complex_Main "HOL-Library.Multiset" "HOL-Library.Product_Lexorder"
begin

section \<open>Conventions of the embedding\<close>

text \<open>
  The program is Python. Its unbounded integers are \<^typ>\<open>int\<close>. A Python float is an
  IEEE 754 binary64 number. Wherever the code turns a float into an integer or compares it
  with a bound (the chunk locations and the reading percentage), its arithmetic is modelled
  operation by operation, each result rounded to the nearest binary64 number and an
  overflow leading where Python leads it (an infinity or an \<^verbatim>\<open>OverflowError\<close>). The
  relevance scores of the retrieval, which the code only compares, scales and sorts, are
  idealised as \<^typ>\<open>real\<close>. Strings are \<^typ>\<open>string\<close>, over the code points 0 to 255.
  A function that catches every exception and returns a default is modelled by a function
  that returns that default on the failing branch.
\<close>

subsection \<open>Python primitives\<close>

text \<open>\<^verbatim>\<open>round(x)\<close> of a float: the nearest integer, a tie going to the even neighbour.\<close>

definition py_round :: "real \<Rightarrow> int" where
  "py_round x =
     (let f = \<lfloor>x\<rfloor>; d = x - of_int f
      in if d < 1 / 2 then f
         else if 1 / 2 < d then f + 1
         else if even f then f else f + 1)"

text \<open>\<^verbatim>\<open>int(x)\<close> of a float: truncation towards zero.\<close>

definition py_int :: "real \<Rightarrow> int" where
  "py_int x = (if 0 \<le> x then \<lfloor>x\<rfloor> else \<lceil>x\<rceil>)"

subsection \<open>Binary floating point\<close>

text \<open>
  \<open>fl64 x\<close> is the real number \<open>x\<close> rounded to binary64 with the exponent range unbounded
  above: the nearest multiple of the unit in the last place of \<open>x\<close>, a tie going to the
  even multiple. The unit is \<open>2\<^sup>e\<^sup>-\<^sup>5\<^sup>2\<close> for \<open>2\<^sup>e \<le> \<bar>x\<bar> < 2\<^sup>e\<^sup>+\<^sup>1\<close>, and \<open>2\<^sup>-\<^sup>1\<^sup>0\<^sup>7\<^sup>4\<close> below
  \<open>2\<^sup>-\<^sup>1\<^sup>0\<^sup>2\<^sup>2\<close> (gradual underflow).
\<close>

definition fl64 :: "real \<Rightarrow> real" where
  "fl64 x =
     (if x = 0 then 0
      else (let e = max \<lfloor>log 2 \<bar>x\<bar>\<rfloor> (- 1022); u = 2 powr of_int (e - 52)
            in sgn x * (of_int (py_round (\<bar>x\<bar> / u)) * u)))"

text \<open>
  The value of a float operation: the rounded result, or an infinity when the rounded
  result has magnitude \<open>2\<^sup>1\<^sup>0\<^sup>2\<^sup>4\<close> or more. No operation of the modelled code has an
  operand that could make it return a NaN.
\<close>

datatype pyfloat = Finite real | PosInf | NegInf

definition round64 :: "real \<Rightarrow> pyfloat" where
  "round64 x =
     (let r = fl64 x
      in if 2 ^ 1024 \<le> r then PosInf else if r \<le> - (2 ^ 1024) then NegInf else Finite r)"

text \<open>\<^verbatim>\<open>a + b\<close>, \<^verbatim>\<open>a * b\<close> and \<^verbatim>\<open>a / b\<close> on finite floats (\<open>b\<close> is never zero).\<close>

definition float_add :: "real \<Rightarrow> real \<Rightarrow> pyfloat" where
  "float_add a b = round64 (a + b)"

definition float_mul :: "real \<Rightarrow> real \<Rightarrow> pyfloat" where
  "float_mul a b = round64 (a * b)"

definition float_div :: "real \<Rightarrow> real \<Rightarrow> pyfloat" where
  "float_div a b = round64 (a / b)"

text \<open>
  The conversion of an integer operand of a float operation, and the true division
  \<^verbatim>\<open>a / b\<close> of two integers: both are correctly rounded, and both raise
  \<^verbatim>\<open>OverflowError\<close> instead of returning an infinity.
\<close>

datatype py_error = OverflowError | ZeroDivisionError

definition float_of_int :: "int \<Rightarrow> py_error + real" where
  "float_of_int n =
     (case round64 (of_int n) of
        Finite r \<Rightarrow> Inr r
      | PosInf \<Rightarrow> Inl OverflowError
      | NegInf \<Rightarrow> Inl OverflowError)"

definition int_truediv :: "int \<Rightarrow> int \<Rightarrow> py_error + real" where
  "int_truediv a b =
     (if b = 0 then Inl ZeroDivisionError
      else (case round64 (of_int a / of_int b) of
              Finite r \<Rightarrow> Inr r
            | PosInf \<Rightarrow> Inl OverflowError
            | NegInf \<Rightarrow> Inl OverflowError))"

text \<open>\<^verbatim>\<open>v or d\<close> on an optional integer: \<^verbatim>\<open>None\<close> and \<^verbatim>\<open>0\<close> are falsy.\<close>

definition py_or :: "int option \<Rightarrow> int \<Rightarrow> int" where
  "py_or v d = (case v of None \<Rightarrow> d | Some n \<Rightarrow> if n = 0 then d else n)"

text \<open>The spec's \<open>clamp(x, lo, hi)\<close>.\<close>

definition clamp :: "int \<Rightarrow> int \<Rightarrow> int \<Rightarrow> int" where
  "clamp x lo hi = max lo (min hi x)"

text \<open>
  A slice bound of Python: a negative index counts from the end, and every index is
  cut to the range \<open>0..len\<close>.
\<close>

definition py_index :: "nat \<Rightarrow> int \<Rightarrow> nat" where
  "py_index n i = (if i < 0 then nat (max 0 (int n + i)) else min n (nat i))"

text \<open>\<^verbatim>\<open>xs[i:j]\<close>, \<^verbatim>\<open>xs[:j]\<close> and \<^verbatim>\<open>xs[i:]\<close>.\<close>

definition py_slice :: "'a list \<Rightarrow> int \<Rightarrow> int \<Rightarrow> 'a list" where
  "py_slice xs i j =
     (let a = py_index (length xs) i; b = py_index (length xs) j
      in take (b - a) (drop a xs))"

definition py_slice_to :: "'a list \<Rightarrow> int \<Rightarrow> 'a list" where
  "py_slice_to xs j = take (py_index (length xs) j) xs"

definition py_slice_from :: "'a list \<Rightarrow> int \<Rightarrow> 'a list" where
  "py_slice_from xs i = drop (py_index (length xs) i) xs"

text \<open>
  \<^verbatim>\<open>s.rfind(sub, start, stop)\<close>: the highest index at which \<open>sub\<close> occurs inside
  \<^verbatim>\<open>s[start:stop]\<close>, or \<open>-1\<close>.
\<close>

definition rfind :: "string \<Rightarrow> string \<Rightarrow> int \<Rightarrow> int \<Rightarrow> int" where
  "rfind s sub start stop =
     (let a = py_index (length s) start; b = py_index (length s) stop;
          found = filter (\<lambda>i. i + length sub \<le> b \<and> take (length sub) (drop i s) = sub)
                    [a ..< Suc b]
      in if found = [] then - 1 else int (last found))"

text \<open>
  \<^verbatim>\<open>s.strip()\<close> and \<^verbatim>\<open>s.split()\<close>. The whitespace of \<^verbatim>\<open>str.isspace\<close> and of the
  regular expression \<^verbatim>\<open>\s\<close> among the code points 0 to 255: 9 to 13, 28 to 32, 133 and
  160.
\<close>

definition is_space :: "char \<Rightarrow> bool" where
  "is_space c =
     (let n = (of_char c :: nat)
      in (9 \<le> n \<and> n \<le> 13) \<or> (28 \<le> n \<and> n \<le> 32) \<or> n = 133 \<or> n = 160)"

definition strip :: "string \<Rightarrow> string" where
  "strip s = rev (dropWhile is_space (rev (dropWhile is_space s)))"

fun split_ws :: "string \<Rightarrow> string \<Rightarrow> string list" where
  "split_ws [] w = (if w = [] then [] else [w])"
| "split_ws (c # cs) w =
     (if is_space c then (if w = [] then split_ws cs [] else w # split_ws cs [])
      else split_ws cs (w @ [c]))"

definition py_split :: "string \<Rightarrow> string list" where
  "py_split s = split_ws s []"

definition endswith :: "string \<Rightarrow> string \<Rightarrow> bool" where
  "endswith s suffix =
     (length suffix \<le> length s \<and> drop (length s - length suffix) s = suffix)"

text \<open>
  \<^verbatim>\<open>sorted(xs, key=key, reverse=True)\<close>: descending by key, and stable, so that elements
  with equal keys keep their order.
\<close>

definition sorted_desc :: "('a \<Rightarrow> 'k::linorder) \<Rightarrow> 'a list \<Rightarrow> 'a list" where
  "sorted_desc key xs = rev (sort_key key (rev xs))"

section \<open>LocationService (services/location\_service.py)\<close>

definition calculate_location_boundary :: "int \<Rightarrow> int \<Rightarrow> int" where
  "calculate_location_boundary current_location total_locations =
     (if current_location \<le> 0 then 1
      else if total_locations \<noteq> 0 \<and> current_location > total_locations then total_locations
      else current_location)"

text \<open>
  \<^verbatim>\<open>min(100.0, max(0.0, (location / total_locations) * 100.0))\<close>: the integer division
  raises when its result is too large for a float; an infinite product is cut to the
  bound by \<^verbatim>\<open>min\<close> and \<^verbatim>\<open>max\<close>.
\<close>

definition get_percentage_from_location :: "int \<Rightarrow> int \<Rightarrow> py_error + real" where
  "get_percentage_from_location location total_locations =
     (if total_locations \<le> 0 then Inr 0
      else (case int_truediv location total_locations of
              Inl e \<Rightarrow> Inl e
            | Inr q \<Rightarrow>
                Inr (case float_mul q 100 of
                       Finite p \<Rightarrow> min 100 (max 0 p)
                     | PosInf \<Rightarrow> 100
                     | NegInf \<Rightarrow> 0)))"

text \<open>
  \<^verbatim>\<open>max(1, min(total_locations, round((percentage / 100.0) * total_locations)))\<close>, for a
  finite float \<open>percentage\<close>: the total is converted to a float for the product, and
  \<^verbatim>\<open>round\<close> of an infinity raises \<^verbatim>\<open>OverflowError\<close>.
\<close>

definition get_location_from_percentage :: "real \<Rightarrow> int \<Rightarrow> py_error + int" where
  "get_location_from_percentage percentage total_locations =
     (if percentage \<le> 0 \<or> total_locations \<le> 0 then Inr 1
      else if percentage \<ge> 100 then Inr total_locations
      else (case float_div percentage 100 of
              Finite r \<Rightarrow>
                (case float_of_int total_locations of
                   Inl e \<Rightarrow> Inl e
                 | Inr t \<Rightarrow>
                     (case float_mul r t of
                        Finite z \<Rightarrow> Inr (max 1 (min total_locations (py_round z)))
                      | PosInf \<Rightarrow> Inl OverflowError
                      | NegInf \<Rightarrow> Inl OverflowError))
            | PosInf \<Rightarrow> Inl OverflowError
            | NegInf \<Rightarrow> Inl OverflowError))"

text \<open>
  The first step of \<^verbatim>\<open>RAGService.process_query\<close> (rag\_service.py, lines 89--96): the
  boundary is computed from the reader's current location and
  \<^verbatim>\<open>book.total_locations or 100\<close>; a boundary that is not positive raises
  \<^verbatim>\<open>AIQueryException\<close>.
\<close>

datatype query_error = AIQueryException

definition query_location_boundary :: "int \<Rightarrow> int option \<Rightarrow> query_error + int" where
  "query_location_boundary current_location total_locations =
     (let location_boundary =
            calculate_location_boundary current_location (py_or total_locations 100)
      in if location_boundary \<le> 0 then Inl AIQueryException else Inr location_boundary)"

section \<open>Chunker (services/text\_extraction\_utility.py)\<close>

text \<open>
  The breakpoint search shared by both branches of \<^verbatim>\<open>chunk_text_streamed\<close>: a paragraph
  break is preferred, then a sentence break, then the default end passed by the caller.
\<close>

definition choose_chunk_end :: "string \<Rightarrow> int \<Rightarrow> int \<Rightarrow> int" where
  "choose_chunk_end buffer chunk_size chunk_end =
     (let paragraph_break =
            rfind buffer [CHR 0x0A, CHR 0x0A] (chunk_size div 2) (chunk_size + 50)
      in if paragraph_break \<noteq> - 1 \<and> paragraph_break > chunk_size div 2 then paragraph_break + 2
         else let sentence_break = rfind buffer ''. '' (chunk_size div 2) (chunk_size + 30)
              in if sentence_break \<noteq> - 1 \<and> sentence_break > chunk_size div 2
                 then sentence_break + 2 else chunk_end)"

text \<open>\<^verbatim>\<open>if chunk and len(chunk) >= min_chunk_size: yield chunk\<close>; the chunks yielded so far are \<open>out\<close>.\<close>

definition emit :: "string list \<Rightarrow> string \<Rightarrow> int \<Rightarrow> string list" where
  "emit out chunk min_chunk_size =
     (if chunk \<noteq> [] \<and> int (length chunk) \<ge> min_chunk_size then out @ [chunk] else out)"

definition html_advance :: "int \<Rightarrow> int \<Rightarrow> int \<Rightarrow> int" where
  "html_advance chunk_end chunk_overlap chunk_size =
     max (chunk_end - (chunk_overlap div 2)) (chunk_size div 2)"

text \<open>
  The handler of \<^verbatim>\<open>chunk_text_streamed\<close> (\<^verbatim>\<open>except Exception\<close>): the current buffer is
  yielded as a last chunk when it is long enough.
\<close>

definition handler_yield :: "string list \<Rightarrow> string \<Rightarrow> int \<Rightarrow> string list" where
  "handler_yield out buffer min_chunk_size =
     (if buffer \<noteq> [] \<and> int (length buffer) \<ge> min_chunk_size then out @ [strip buffer]
      else out)"

text \<open>
  The \<^verbatim>\<open>while pos < len(text)\<close> loop of the HTML branch. The result is \<open>None\<close> when the
  loop never ends. The test \<^verbatim>\<open>pos % (chunk_size * 20) == 0\<close> at the end of the body
  raises \<^verbatim>\<open>ZeroDivisionError\<close> when the chunk size is 0, which ends the generator in
  the handler.
\<close>

partial_function (option) chunk_html_loop ::
  "string \<Rightarrow> int \<Rightarrow> int \<Rightarrow> int \<Rightarrow> int \<Rightarrow> string list \<Rightarrow> string list option" where
  "chunk_html_loop text chunk_size chunk_overlap min_chunk_size pos out =
     (if pos < int (length text) then
        (let end_buffer = min (pos + chunk_size * 3) (int (length text));
             buffer = py_slice text pos end_buffer;
             chunk_end = choose_chunk_end buffer chunk_size (min chunk_size (int (length buffer)));
             chunk = strip (py_slice_to buffer chunk_end)
         in if chunk_size * 20 = 0
            then Some (handler_yield (emit out chunk min_chunk_size) buffer min_chunk_size)
            else chunk_html_loop text chunk_size chunk_overlap min_chunk_size
                   (pos + html_advance chunk_end chunk_overlap chunk_size)
                   (emit out chunk min_chunk_size))
      else Some out)"

text \<open>
  The plain-text branch: the inner \<^verbatim>\<open>while len(buffer) >= chunk_size * 1.5\<close> loop, which
  returns the remaining buffer and the chunks yielded, and the \<^verbatim>\<open>for line in file\<close> loop
  around it.
\<close>

partial_function (option) chunk_plain_while ::
  "string \<Rightarrow> int \<Rightarrow> int \<Rightarrow> int \<Rightarrow> string list \<Rightarrow> (string \<times> string list) option" where
  "chunk_plain_while buffer chunk_size chunk_overlap min_chunk_size out =
     (if real (length buffer) \<ge> of_int chunk_size * 1.5 then
        (let chunk_end = choose_chunk_end buffer chunk_size chunk_size;
             chunk = strip (py_slice_to buffer chunk_end)
         in chunk_plain_while (py_slice_from buffer (chunk_end - (chunk_overlap div 2)))
              chunk_size chunk_overlap min_chunk_size (emit out chunk min_chunk_size))
      else Some (buffer, out))"

fun chunk_plain_lines ::
  "string list \<Rightarrow> string \<Rightarrow> int \<Rightarrow> int \<Rightarrow> int \<Rightarrow> string list \<Rightarrow> string list option" where
  "chunk_plain_lines [] buffer chunk_size chunk_overlap min_chunk_size out =
     Some (if int (length buffer) \<ge> min_chunk_size then out @ [strip buffer] else out)"
| "chunk_plain_lines (line # file) buffer chunk_size chunk_overlap min_chunk_size out =
     (case chunk_plain_while (buffer @ line) chunk_size chunk_overlap min_chunk_size out of
        None \<Rightarrow> None
      | Some (buffer', out') \<Rightarrow>
          chunk_plain_lines file buffer' chunk_size chunk_overlap min_chunk_size out')"

text \<open>
  The file system and the HTML text extraction (BeautifulSoup) are outside the function:
  \<open>extract_text_streamed\<close> gives the plain text of an HTML file (the empty string when
  the file is missing), \<open>read_lines\<close> the lines of a text file, each with its line end
  (\<open>None\<close> when \<^verbatim>\<open>open\<close> raises, which the handler turns into no chunks at all).
\<close>

record chunk_files =
  extract_text_streamed :: "string \<Rightarrow> string"
  read_lines :: "string \<Rightarrow> string list option"

definition chunk_text_streamed ::
  "chunk_files \<Rightarrow> string \<Rightarrow> int \<Rightarrow> int \<Rightarrow> int \<Rightarrow> string list option" where
  "chunk_text_streamed fs file_path chunk_size chunk_overlap min_chunk_size =
     (if endswith file_path ''.html'' then
        chunk_html_loop (extract_text_streamed fs file_path) chunk_size chunk_overlap
          min_chunk_size 0 []
      else (case read_lines fs file_path of
              None \<Rightarrow> Some []
            | Some file \<Rightarrow> chunk_plain_lines file [] chunk_size chunk_overlap min_chunk_size []))"

text \<open>
  \<^verbatim>\<open>batch_chunks\<close>: a batch is yielded as soon as it holds \<open>batch_size\<close> chunks, and the
  last, shorter batch when the generator is exhausted.
\<close>

fun batch_loop :: "'a list \<Rightarrow> 'a list \<Rightarrow> int \<Rightarrow> 'a list list" where
  "batch_loop [] batch batch_size = (if batch \<noteq> [] then [batch] else [])"
| "batch_loop (chunk # generator) batch batch_size =
     (if int (length (batch @ [chunk])) \<ge> batch_size
      then (batch @ [chunk]) # batch_loop generator [] batch_size
      else batch_loop generator (batch @ [chunk]) batch_size)"

definition batch_chunks :: "'a list \<Rightarrow> int \<Rightarrow> 'a list list" where
  "batch_chunks generator batch_size = batch_loop generator [] batch_size"

section \<open>Payloads, points and search results\<close>

text \<open>
  The payload dictionary that the ingestion writes for every vector and for every entry
  of the keyword index's metadata file. The key \<^verbatim>\<open>text\<close> is the field \<open>text_field\<close>;
  summaries carry no chapter id and no chapter order.
\<close>

record metadata =
  chapter_id :: "string option"
  chapter_title :: string
  chapter_order :: "int option"
  book_id :: string
  location :: int
  completion_percentage :: real
  text_field :: string
  content_type :: string

text \<open>
  A search result dictionary \<^verbatim>\<open>{"id": .., "score": .., **payload}\<close>; the payload keys are
  the record \<open>meta\<close>. The keys \<^verbatim>\<open>search_method\<close>, \<^verbatim>\<open>original_score\<close> and
  \<^verbatim>\<open>rerank_score\<close> are added later by the query pipeline.
\<close>

record search_result =
  result_id :: "string option"
  score :: real
  meta :: metadata
  search_method :: "string option"
  original_score :: "real option"
  rerank_score :: "int option"

record point =
  point_id :: "string option"
  vector :: "real list"
  payload :: metadata

section \<open>QdrantManager (db/qdrant.py)\<close>

text \<open>
  The filter conditions the code builds: \<^verbatim>\<open>FieldCondition(key, match=MatchValue(value))\<close>
  and \<^verbatim>\<open>FieldCondition(key, range=Range(lte=bound))\<close>.
\<close>

datatype condition = MatchValue string string | RangeLte string int

definition payload_keyword :: "metadata \<Rightarrow> string \<Rightarrow> string option" where
  "payload_keyword m key =
     (if key = ''book_id'' then Some (book_id m)
      else if key = ''content_type'' then Some (content_type m)
      else if key = ''chapter_title'' then Some (chapter_title m)
      else if key = ''chapter_id'' then chapter_id m
      else if key = ''text'' then Some (text_field m)
      else None)"

definition payload_integer :: "metadata \<Rightarrow> string \<Rightarrow> int option" where
  "payload_integer m key =
     (if key = ''location'' then Some (location m)
      else if key = ''chapter_order'' then chapter_order m
      else None)"

fun condition_holds :: "metadata \<Rightarrow> condition \<Rightarrow> bool" where
  "condition_holds m (MatchValue key v) = (payload_keyword m key = Some v)"
| "condition_holds m (RangeLte key bound) =
     (case payload_integer m key of None \<Rightarrow> False | Some n \<Rightarrow> n \<le> bound)"

definition filter_must :: "condition list \<Rightarrow> point \<Rightarrow> bool" where
  "filter_must must p = list_all (condition_holds (payload p)) must"

text \<open>
  Modelled from the spec: the vector store itself (the Qdrant engine behind
  \<^verbatim>\<open>self.client\<close>) is an external capability, \<open>search(vector, filter, limit,
  scoreThreshold)\<close>, \<open>upsert\<close>, \<open>delete(filter)\<close> and \<open>exists(filter)\<close>. A search returns
  the points that satisfy every condition of the filter and whose similarity to the
  query reaches the threshold, best first, at most \<open>limit\<close> of them; the similarity
  measure is a parameter. An upsert replaces the point with the same id, or appends.
\<close>

type_synonym similarity = "real list \<Rightarrow> real list \<Rightarrow> real"

definition client_search ::
  "similarity \<Rightarrow> point list \<Rightarrow> real list \<Rightarrow> condition list \<Rightarrow> nat \<Rightarrow> real
     \<Rightarrow> (point \<times> real) list" where
  "client_search sim collection query_vector query_filter limit score_threshold =
     take limit
       (sorted_desc snd
          (filter (\<lambda>(p, s). s \<ge> score_threshold)
             (map (\<lambda>p. (p, sim query_vector (vector p)))
                (filter (filter_must query_filter) collection))))"

definition client_scroll :: "point list \<Rightarrow> condition list \<Rightarrow> nat \<Rightarrow> point list" where
  "client_scroll collection scroll_filter limit =
     take limit (filter (filter_must scroll_filter) collection)"

fun upsert_point :: "point \<Rightarrow> point list \<Rightarrow> point list" where
  "upsert_point p [] = [p]"
| "upsert_point p (q # qs) =
     (if point_id p \<noteq> None \<and> point_id q = point_id p then p # qs
      else q # upsert_point p qs)"

definition client_upsert :: "point list \<Rightarrow> point list \<Rightarrow> point list" where
  "client_upsert collection points = fold upsert_point points collection"

definition client_delete :: "point list \<Rightarrow> condition list \<Rightarrow> point list" where
  "client_delete collection points_selector =
     filter (\<lambda>p. \<not> filter_must points_selector p) collection"

definition enumerate :: "'a list \<Rightarrow> (nat \<times> 'a) list" where
  "enumerate xs = zip [0 ..< length xs] xs"

definition has_vectors_for_book :: "point list \<Rightarrow> string \<Rightarrow> bool" where
  "has_vectors_for_book collection bid =
     (client_scroll collection [MatchValue ''book_id'' bid] 1 \<noteq> [])"

definition add_text_vectors ::
  "point list \<Rightarrow> real list list \<Rightarrow> metadata list \<Rightarrow> string list \<Rightarrow> point list" where
  "add_text_vectors collection vectors metadata_list ids =
     client_upsert collection
       (map (\<lambda>(i, v, m).
               \<lparr>point_id = (if i < length ids then Some (ids ! i) else None),
                vector = v, payload = m\<rparr>)
          (enumerate (zip vectors metadata_list)))"

definition search_vectors ::
  "similarity \<Rightarrow> point list \<Rightarrow> real list \<Rightarrow> string \<Rightarrow> int \<Rightarrow> real \<Rightarrow> int option
     \<Rightarrow> (string \<times> string) list \<Rightarrow> search_result list" where
  "search_vectors sim collection query_vector bid limit score_threshold location_boundary
       filter_metadata =
     (let filter_conditions =
            [MatchValue ''book_id'' bid]
            @ (case location_boundary of
                 None \<Rightarrow> []
               | Some b \<Rightarrow> [RangeLte ''location'' b])
            @ map (\<lambda>(key, v). MatchValue key v) filter_metadata;
          search_result =
            client_search sim collection query_vector filter_conditions (nat limit)
              score_threshold
      in map (\<lambda>(scored_point, s).
                \<lparr>result_id = point_id scored_point, score = s, meta = payload scored_point,
                 search_method = None, original_score = None, rerank_score = None\<rparr>)
           search_result)"

definition delete_book_vectors :: "point list \<Rightarrow> string \<Rightarrow> point list" where
  "delete_book_vectors collection bid = client_delete collection [MatchValue ''book_id'' bid]"

section \<open>BM25Service (services/bm25\_service.py)\<close>

text \<open>
  The pickled index: the scoring function of the \<^verbatim>\<open>rank_bm25\<close> index object (an
  external library), the chunk texts and their tokens. The cache directory holds, per
  book id, the index file and the metadata file.
\<close>

record index_data =
  index_get_scores :: "string list \<Rightarrow> real list"
  chunks :: "string list"
  tokenized_chunks :: "string list list"

record bm25_cache =
  bm25_pkl :: "string \<rightharpoonup> index_data"
  metadata_json :: "string \<rightharpoonup> metadata list"

definition load_bm25_index :: "bm25_cache \<Rightarrow> string \<Rightarrow> index_data option" where
  "load_bm25_index cache bid = bm25_pkl cache bid"

text \<open>
  The loop over \<^verbatim>\<open>enumerate(scores)\<close>. \<open>None\<close> is the \<^verbatim>\<open>IndexError\<close> of
  \<^verbatim>\<open>chunks[i]\<close>. In the result dictionary the payload's own \<^verbatim>\<open>text\<close> key overrides
  \<^verbatim>\<open>chunks[i]\<close>.
\<close>

fun collect_results ::
  "(nat \<times> real) list \<Rightarrow> metadata list \<Rightarrow> string list \<Rightarrow> int \<Rightarrow> search_result list option" where
  "collect_results [] metadata_list cs location_boundary = Some []"
| "collect_results ((i, sc) # scores) metadata_list cs location_boundary =
     (if i \<ge> length metadata_list then collect_results scores metadata_list cs location_boundary
      else if location (metadata_list ! i) > location_boundary
        then collect_results scores metadata_list cs location_boundary
      else if sc > 0 then
        (if i < length cs then
           map_option
             (\<lambda>results. \<lparr>result_id = None, score = sc, meta = metadata_list ! i,
                          search_method = None, original_score = None,
                          rerank_score = None\<rparr> # results)
             (collect_results scores metadata_list cs location_boundary)
         else None)
      else collect_results scores metadata_list cs location_boundary)"

definition max_score :: "search_result list \<Rightarrow> real" where
  "max_score rs = Max (set (map score rs))"

definition rescale :: "search_result list \<Rightarrow> search_result list" where
  "rescale results =
     (if results \<noteq> []
      then (let m = max_score results in map (\<lambda>r. r\<lparr>score := score r / m * 0.95\<rparr>) results)
      else results)"

text \<open>
  \<^verbatim>\<open>BM25Service.search\<close>; \<open>tokenize\<close> stands for \<^verbatim>\<open>word_tokenize(query.lower())\<close>
  (nltk). Every exception ends in the handler, which returns the empty list.
\<close>

definition bm25_search ::
  "(string \<Rightarrow> string list) \<Rightarrow> bm25_cache \<Rightarrow> string \<Rightarrow> string \<Rightarrow> int \<Rightarrow> int
     \<Rightarrow> search_result list" where
  "bm25_search tokenize cache query bid location_boundary limit =
     (case load_bm25_index cache bid of
        None \<Rightarrow> []
      | Some idx \<Rightarrow>
          (case metadata_json cache bid of
             None \<Rightarrow> []
           | Some metadata_list \<Rightarrow>
               (let scores = index_get_scores idx (tokenize query)
                in case collect_results (enumerate scores) metadata_list (chunks idx)
                          location_boundary of
                     None \<Rightarrow> []
                   | Some results \<Rightarrow>
                       rescale (py_slice_to (sorted_desc score results) limit))))"

section \<open>EmbeddingService (services/embedding\_service.py)\<close>

record book =
  bk_title :: string
  bk_content_path :: "string option"
  total_locations :: "int option"

record chapter_row =
  ch_id :: string
  ch_title :: string
  ch_order :: int
  ch_content_path :: "string option"
  start_location :: int
  end_location :: int

text \<open>
  What the ingestion reads from outside: the book and its chapters (the database), the
  size of a chapter file (\<open>None\<close> when the path does not exist), the files the chunker
  reads, the embedding model (\<open>None\<close> when the call raises), the summary of a text
  (\<^verbatim>\<open>generate_location_summary\<close>, which returns the empty string on failure), the random
  and the name-based ids, the tokenizer and the \<^verbatim>\<open>rank_bm25\<close> index constructor, and
  the configured chunk size and overlap.
\<close>

record ingest_env =
  db_book :: "string \<Rightarrow> book option"
  db_chapters :: "string \<Rightarrow> chapter_row list"
  getsize :: "string \<Rightarrow> nat option"
  chunk_fs :: chunk_files
  generate_embeddings_batch :: "string list \<Rightarrow> real list list option"
  generate_embedding :: "string \<Rightarrow> real list option"
  generate_location_summary :: "string \<Rightarrow> int \<Rightarrow> string"
  uuid4 :: "nat \<Rightarrow> string"
  summary_uuid5 :: "string \<Rightarrow> int \<Rightarrow> string"
  word_tokenize_lower :: "string \<Rightarrow> string list"
  BM25Okapi :: "string list list \<Rightarrow> string list \<Rightarrow> real list"
  CHUNK_SIZE :: int
  CHUNK_OVERLAP :: int

text \<open>The persistent state: the vector collection and the keyword-index cache directory.\<close>

record store =
  collection :: "point list"
  cache :: bm25_cache

text \<open>The local variables of \<^verbatim>\<open>embed_book_content\<close> that live across the loops.\<close>

record ingest_state =
  points :: "point list"
  all_chunks :: "string list"
  all_metadata :: "metadata list"
  location_text_buffer :: string
  last_summary_location :: int
  total_embedded :: nat

definition max_batch_size :: int where
  "max_batch_size = 120"

definition summary_interval :: int where
  "summary_interval = 11"

text \<open>
  Lines 119--121: the location of the chunk at index \<open>i\<close> of a batch of \<open>n\<close> chunks,
  \<^verbatim>\<open>int(start + (end - start) / (n + 1) * (i + 1))\<close> clamped to the chapter's range. The
  quotient of the two integers is a float; \<open>i + 1\<close> and \<open>start\<close> are converted to floats
  for the product and for the sum; \<^verbatim>\<open>int\<close> of an infinite sum raises
  \<^verbatim>\<open>OverflowError\<close>, and an infinite product makes the sum infinite.
\<close>

definition chunk_location :: "int \<Rightarrow> int \<Rightarrow> nat \<Rightarrow> nat \<Rightarrow> py_error + int" where
  "chunk_location start_loc end_loc n i =
     (case int_truediv (end_loc - start_loc) (int n + 1) of
        Inl e \<Rightarrow> Inl e
      | Inr segment_size \<Rightarrow>
          (case float_of_int (int i + 1) of
             Inl e \<Rightarrow> Inl e
           | Inr i1 \<Rightarrow>
               (case float_of_int start_loc of
                  Inl e \<Rightarrow> Inl e
                | Inr s \<Rightarrow>
                    (case float_mul segment_size i1 of
                       Finite p \<Rightarrow>
                         (case float_add s p of
                            Finite loc \<Rightarrow> Inr (max start_loc (min end_loc (py_int loc)))
                          | PosInf \<Rightarrow> Inl OverflowError
                          | NegInf \<Rightarrow> Inl OverflowError)
                     | PosInf \<Rightarrow> Inl OverflowError
                     | NegInf \<Rightarrow> Inl OverflowError))))"

text \<open>
  \<^verbatim>\<open>_create_location_summary\<close>: every exception inside, the one of the percentage
  included, is logged and swallowed.
\<close>

definition create_location_summary ::
  "ingest_env \<Rightarrow> point list \<Rightarrow> string \<Rightarrow> int \<Rightarrow> string \<Rightarrow> string \<Rightarrow> int \<Rightarrow> point list" where
  "create_location_summary env coll bid loc txt title total_locs =
     (if strip txt = [] then coll
      else
        (let summary = generate_location_summary env txt loc
         in case generate_embedding env (take 2000 txt) of
              None \<Rightarrow> coll
            | Some summary_embedding \<Rightarrow>
                if summary = [] then coll
                else (case get_percentage_from_location loc total_locs of
                        Inl e \<Rightarrow> coll
                      | Inr percentage \<Rightarrow>
                          add_text_vectors coll [summary_embedding]
                            [\<lparr>chapter_id = None, chapter_title = title, chapter_order = None,
                              book_id = bid, location = loc,
                              completion_percentage = percentage,
                              text_field = summary, content_type = ''summary''\<rparr>]
                            [summary_uuid5 env bid loc])))"

text \<open>
  The loop \<^verbatim>\<open>for i, chunk_text in enumerate(batch)\<close>; it also returns \<^verbatim>\<open>batch_metadata\<close>.
  The flag is \<open>False\<close> when the location or the percentage of a chunk raised: the loop
  stops there, with what it had accumulated.
\<close>

fun process_batch_chunks ::
  "ingest_env \<Rightarrow> string \<Rightarrow> book \<Rightarrow> chapter_row \<Rightarrow> nat \<Rightarrow> (nat \<times> string) list \<Rightarrow> ingest_state
     \<Rightarrow> metadata list \<Rightarrow> ingest_state \<times> metadata list \<times> bool" where
  "process_batch_chunks env bid bk ch n [] st batch_metadata = (st, batch_metadata, True)"
| "process_batch_chunks env bid bk ch n ((i, chunk_text) # rest) st batch_metadata =
     (case chunk_location (start_location ch) (end_location ch) n i of
        Inl e \<Rightarrow> (st, batch_metadata, False)
      | Inr loc \<Rightarrow>
          (let buffer = location_text_buffer st @ chunk_text @ '' '';
               st1 = (if loc - last_summary_location st \<ge> summary_interval
                      then st\<lparr>points := create_location_summary env (points st) bid loc buffer
                                           (ch_title ch) (py_or (total_locations bk) 100),
                              location_text_buffer := [],
                              last_summary_location := loc\<rparr>
                      else st\<lparr>location_text_buffer := buffer\<rparr>)
           in case get_percentage_from_location loc (py_or (total_locations bk) 100) of
                Inl e \<Rightarrow> (st1, batch_metadata, False)
              | Inr percentage \<Rightarrow>
                  (let m = \<lparr>chapter_id = Some (ch_id ch), chapter_title = ch_title ch,
                            chapter_order = Some (ch_order ch), book_id = bid, location = loc,
                            completion_percentage = percentage,
                            text_field = chunk_text, content_type = ''content''\<rparr>
                   in process_batch_chunks env bid bk ch n rest
                        (st1\<lparr>all_chunks := all_chunks st1 @ [chunk_text],
                             all_metadata := all_metadata st1 @ [m]\<rparr>)
                        (batch_metadata @ [m]))))"

text \<open>
  One iteration of \<^verbatim>\<open>for batch in batch_chunks(...)\<close>. The flag is \<open>False\<close> when the
  loop over the chunks or the embedding call raised: the chapter's handler then skips the
  rest of the chapter, and what was accumulated before stays.
\<close>

definition process_batch ::
  "ingest_env \<Rightarrow> string \<Rightarrow> book \<Rightarrow> chapter_row \<Rightarrow> string list \<Rightarrow> ingest_state
     \<Rightarrow> ingest_state \<times> bool" where
  "process_batch env bid bk ch batch st =
     (let (st1, batch_metadata, ok) =
            process_batch_chunks env bid bk ch (length batch) (enumerate batch) st []
      in if \<not> ok then (st1, False)
         else (case generate_embeddings_batch env batch of
                 None \<Rightarrow> (st1, False)
               | Some embeddings \<Rightarrow>
                   (st1\<lparr>points := add_text_vectors (points st1) embeddings batch_metadata
                                      (map (\<lambda>j. uuid4 env (total_embedded st1 + j))
                                         [0 ..< length batch]),
                        total_embedded := total_embedded st1 + length batch\<rparr>, True)))"

fun process_batches ::
  "ingest_env \<Rightarrow> string \<Rightarrow> book \<Rightarrow> chapter_row \<Rightarrow> string list list \<Rightarrow> ingest_state
     \<Rightarrow> ingest_state" where
  "process_batches env bid bk ch [] st = st"
| "process_batches env bid bk ch (batch # batches) st =
     (let (st1, ok) = process_batch env bid bk ch batch st
      in if ok then process_batches env bid bk ch batches st1 else st1)"

text \<open>
  The outcome of the location arithmetic for the chunks of one batch, and the locations
  given to the chunks of one chapter, batch after batch: the first chunk whose location
  raises ends the chapter.
\<close>

definition batch_locations :: "int \<Rightarrow> int \<Rightarrow> 'a list \<Rightarrow> (py_error + int) list" where
  "batch_locations start_loc end_loc batch =
     map (\<lambda>(i, c). chunk_location start_loc end_loc (length batch) i) (enumerate batch)"

fun assigned :: "(py_error + int) list \<Rightarrow> int list" where
  "assigned [] = []"
| "assigned (Inr l # rs) = l # assigned rs"
| "assigned (Inl e # rs) = []"

definition chapter_locations :: "int \<Rightarrow> int \<Rightarrow> 'a list \<Rightarrow> int list" where
  "chapter_locations start_loc end_loc chunk_generator =
     assigned (concat (map (batch_locations start_loc end_loc)
                         (batch_chunks chunk_generator max_batch_size)))"

text \<open>
  One iteration of \<^verbatim>\<open>for chapter in chapters\<close>; \<open>None\<close> when the chunker never
  returns.
\<close>

definition process_chapter ::
  "ingest_env \<Rightarrow> string \<Rightarrow> book \<Rightarrow> chapter_row \<Rightarrow> ingest_state \<Rightarrow> ingest_state option" where
  "process_chapter env bid bk ch st =
     (case ch_content_path ch of
        None \<Rightarrow> Some st
      | Some path \<Rightarrow>
          if path = [] then Some st
          else (case getsize env path of
                  None \<Rightarrow> Some st
                | Some file_size \<Rightarrow>
                    if file_size < 50 then Some st
                    else (case chunk_text_streamed (chunk_fs env) path (CHUNK_SIZE env)
                                 (CHUNK_OVERLAP env) 100 of
                            None \<Rightarrow> None
                          | Some chunk_generator \<Rightarrow>
                              Some (process_batches env bid bk ch
                                      (batch_chunks chunk_generator max_batch_size) st))))"

fun process_chapters ::
  "ingest_env \<Rightarrow> string \<Rightarrow> book \<Rightarrow> chapter_row list \<Rightarrow> ingest_state \<Rightarrow> ingest_state option" where
  "process_chapters env bid bk [] st = Some st"
| "process_chapters env bid bk (ch # chapters) st =
     (case process_chapter env bid bk ch st of
        None \<Rightarrow> None
      | Some st1 \<Rightarrow> process_chapters env bid bk chapters st1)"

text \<open>\<^verbatim>\<open>_create_bm25_index\<close> and the metadata file written after it (lines 176--187).\<close>

definition create_bm25_index :: "ingest_env \<Rightarrow> bm25_cache \<Rightarrow> string \<Rightarrow> string list \<Rightarrow> bm25_cache" where
  "create_bm25_index env c bid text_chunks =
     (let tokenized = map (word_tokenize_lower env) text_chunks
      in c\<lparr>bm25_pkl := (bm25_pkl c)(bid \<mapsto>
             \<lparr>index_get_scores = BM25Okapi env tokenized, chunks = text_chunks,
              tokenized_chunks = tokenized\<rparr>)\<rparr>)"

text \<open>
  The outer handler (lines 195--206): the book's vectors are deleted, then the index file
  and the metadata file are removed; \<^verbatim>\<open>os.remove\<close> of a missing index file raises, which
  skips the removal of the metadata file.
\<close>

definition rollback :: "store \<Rightarrow> string \<Rightarrow> store" where
  "rollback s bid =
     \<lparr>collection = delete_book_vectors (collection s) bid,
      cache = (if bm25_pkl (cache s) bid = None then cache s
               else (cache s)\<lparr>bm25_pkl := (bm25_pkl (cache s))(bid := None),
                             metadata_json := (metadata_json (cache s))(bid := None)\<rparr>)\<rparr>"

datatype ingest_error = VectorStoreException

text \<open>
  \<^verbatim>\<open>embed_book_content\<close>: the number of chunks embedded, or the exception, with the
  store left behind; \<open>None\<close> when a chunker loop never returns.
\<close>

definition embed_book_content ::
  "ingest_env \<Rightarrow> store \<Rightarrow> string \<Rightarrow> ((ingest_error + nat) \<times> store) option" where
  "embed_book_content env s bid =
     (if has_vectors_for_book (collection s) bid then Some (Inr 0, s)
      else (case db_book env bid of
              None \<Rightarrow> Some (Inl VectorStoreException, rollback s bid)
            | Some bk \<Rightarrow>
                if bk_content_path bk = None \<or> bk_content_path bk = Some []
                  then Some (Inl VectorStoreException, rollback s bid)
                else if db_chapters env bid = []
                  then Some (Inl VectorStoreException, rollback s bid)
                else (case process_chapters env bid bk (db_chapters env bid)
                             \<lparr>points = collection s, all_chunks = [], all_metadata = [],
                              location_text_buffer = [], last_summary_location = 0,
                              total_embedded = 0\<rparr> of
                        None \<Rightarrow> None
                      | Some st \<Rightarrow>
                          Some (Inr (total_embedded st),
                                \<lparr>collection = points st,
                                 cache = (if all_chunks st \<noteq> []
                                          then (create_bm25_index env (cache s) bid (all_chunks st))
                                                 \<lparr>metadata_json :=
                                                    (metadata_json (cache s))(bid \<mapsto> all_metadata st)\<rparr>
                                          else cache s)\<rparr>))))"

section \<open>RAGService (services/rag\_service.py)\<close>

definition BM25_RESULTS_LIMIT :: int where
  "BM25_RESULTS_LIMIT = 10"

definition BM25_WEIGHT :: real where
  "BM25_WEIGHT = 0.4"

text \<open>
  What a query reads from outside: the book row, the similarity measure of the vector
  store, the tokenizer, the embedding model (\<open>None\<close> when the call raises), the
  expanded queries that \<^verbatim>\<open>_expand_query\<close> obtains from the language model, and the
  language model's answer to the reranking prompt built from the query, the candidates
  and the book title (\<open>None\<close> when the call raises).
\<close>

record query_env =
  query_book :: "string \<Rightarrow> book option"
  similarity_of :: similarity
  tokenize_query :: "string \<Rightarrow> string list"
  embed_single_text :: "string \<Rightarrow> real list option"
  expand_query :: "string \<Rightarrow> string \<Rightarrow> string list"
  judge :: "string \<Rightarrow> search_result list \<Rightarrow> string \<Rightarrow> string option"

definition tag :: "string \<Rightarrow> search_result list \<Rightarrow> search_result list" where
  "tag m rs = map (\<lambda>r. r\<lparr>search_method := Some m\<rparr>) rs"

text \<open>Step 2 of \<^verbatim>\<open>process_query\<close> (lines 102--155): the four retrieval strategies.\<close>

definition retrieve ::
  "query_env \<Rightarrow> store \<Rightarrow> string \<Rightarrow> string \<Rightarrow> real list \<Rightarrow> real list list \<Rightarrow> int
     \<Rightarrow> search_result list" where
  "retrieve env s bid query query_embedding expanded_embeddings location_boundary =
     tag ''bm25''
       (bm25_search (tokenize_query env) (cache s) query bid location_boundary
          BM25_RESULTS_LIMIT)
     @ tag ''vector''
         (search_vectors (similarity_of env) (collection s) query_embedding bid 15 0.6
            (Some location_boundary) [])
     @ tag ''summary''
         (search_vectors (similarity_of env) (collection s) query_embedding bid 5 0.65
            (Some location_boundary) [(''content_type'', ''summary'')])
     @ concat
         (map (\<lambda>expanded_embedding.
                 tag ''expanded_vector''
                   (search_vectors (similarity_of env) (collection s) expanded_embedding bid 5
                      0.5 (Some location_boundary) []))
            expanded_embeddings)"

text \<open>
  Step 3 (lines 160--193). The result dictionaries are shared between \<^verbatim>\<open>all_results\<close>
  and the four groups, so rescoring a group rescores its members inside
  \<^verbatim>\<open>all_results\<close>; each \<open>normalize_group\<close> is one of the guarded blocks.
\<close>

definition group :: "string \<Rightarrow> search_result list \<Rightarrow> search_result list" where
  "group m all_results = filter (\<lambda>r. search_method r = Some m) all_results"

definition normalize :: "real \<Rightarrow> real \<Rightarrow> search_result \<Rightarrow> search_result" where
  "normalize mx weight r =
     r\<lparr>original_score := Some (score r),
       score := (if mx > 0 then score r / mx else 0) * weight\<rparr>"

definition normalize_group :: "string \<Rightarrow> real \<Rightarrow> search_result list \<Rightarrow> search_result list" where
  "normalize_group m weight all_results =
     (if group m all_results \<noteq> []
      then (let mx = max_score (group m all_results)
            in map (\<lambda>r. if search_method r = Some m then normalize mx weight r else r)
                 all_results)
      else all_results)"

definition fuse_scores :: "real \<Rightarrow> search_result list \<Rightarrow> search_result list" where
  "fuse_scores bm25_weight all_results =
     (let r1 = normalize_group ''summary'' 0.4 all_results;
          r2 = (if group ''vector'' r1 \<noteq> [] \<and> group ''bm25'' r1 \<noteq> []
                then normalize_group ''bm25'' bm25_weight
                       (normalize_group ''vector'' (1 - bm25_weight) r1)
                else r1)
      in normalize_group ''expanded_vector'' 0.7 r2)"

text \<open>Deduplication (lines 195--208): the first result for each 100-character text prefix is kept.\<close>

fun dedup_loop :: "search_result list \<Rightarrow> string set \<Rightarrow> search_result list" where
  "dedup_loop [] seen_texts = []"
| "dedup_loop (r # sorted_results) seen_texts =
     (let text_key = take 100 (text_field (meta r))
      in if text_key \<notin> seen_texts
         then r # dedup_loop sorted_results (insert text_key seen_texts)
         else dedup_loop sorted_results seen_texts)"

definition deduplicate :: "search_result list \<Rightarrow> search_result list" where
  "deduplicate all_results = dedup_loop (sorted_desc score all_results) {}"

text \<open>
  The regular expression \<^verbatim>\<open>\[(\d+)\]:\s*(\d+)\<close> matched at the start of a string: the
  two groups and the rest of the string after the match.
\<close>

definition is_digit :: "char \<Rightarrow> bool" where
  "is_digit c = (let n = (of_char c :: nat) in 48 \<le> n \<and> n \<le> 57)"

definition int_of_digits :: "string \<Rightarrow> int" where
  "int_of_digits ds = fold (\<lambda>c n. 10 * n + (int (of_char c) - 48)) ds 0"

definition match_rating :: "string \<Rightarrow> ((string \<times> string) \<times> string) option" where
  "match_rating s =
     (case s of
        [] \<Rightarrow> None
      | c # s1 \<Rightarrow>
          if c \<noteq> CHR ''['' then None
          else if takeWhile is_digit s1 = [] then None
          else (case dropWhile is_digit s1 of
                  c2 # c3 # s3 \<Rightarrow>
                    if c2 = CHR '']'' \<and> c3 = CHR '':''
                    then (let s4 = dropWhile is_space s3
                          in if takeWhile is_digit s4 = [] then None
                             else Some ((takeWhile is_digit s1, takeWhile is_digit s4),
                                        dropWhile is_digit s4))
                    else None
                | _ \<Rightarrow> None))"

lemma match_rating_shorter:
  assumes "match_rating s = Some (g, rest)"
  shows "length rest < length s"
proof (cases s)
  case Nil
  then show ?thesis using assms by (simp add: match_rating_def)
next
  case (Cons c s1)
  from assms Cons obtain c2 c3 s3 where
    d: "dropWhile is_digit s1 = c2 # c3 # s3"
    and r: "rest = dropWhile is_digit (dropWhile is_space s3)"
    by (auto simp: match_rating_def Let_def split: if_splits list.splits)
  have "length rest \<le> length s3"
    unfolding r
    by (meson length_dropWhile_le order_trans)
  also have "length s3 < length (dropWhile is_digit s1)" by (simp add: d)
  also have "\<dots> \<le> length s1" by (rule length_dropWhile_le)
  finally show ?thesis by (simp add: Cons)
qed

text \<open>\<^verbatim>\<open>re.findall\<close>: the matches from left to right, each search resuming after the last match.\<close>

function findall_ratings :: "string \<Rightarrow> (string \<times> string) list" where
  "findall_ratings [] = []"
| "findall_ratings (c # cs) =
     (case match_rating (c # cs) of
        Some (g, rest) \<Rightarrow> g # findall_ratings rest
      | None \<Rightarrow> findall_ratings cs)"
  by pat_completeness auto
termination
  by (relation "measure length") (auto dest: match_rating_shorter)

text \<open>
  The dictionary \<^verbatim>\<open>rankings\<close> as an association list, the latest entry first, so that a
  later rating of an index overrides an earlier one.
\<close>

definition parse_rankings :: "string \<Rightarrow> nat \<Rightarrow> (nat \<times> int) list" where
  "parse_rankings response n =
     fold (\<lambda>(a, b) rankings.
             (let index = int_of_digits a - 1; sc = int_of_digits b
              in if 0 \<le> index \<and> index < int n
                 then (nat index, min 10 (max 1 sc)) # rankings
                 else rankings))
       (findall_ratings response) []"

definition rerank_key :: "search_result \<Rightarrow> int \<times> real" where
  "rerank_key x = ((case rerank_score x of None \<Rightarrow> 0 | Some v \<Rightarrow> v), score x)"

definition rerank_results ::
  "(string \<Rightarrow> search_result list \<Rightarrow> string \<Rightarrow> string option) \<Rightarrow> string \<Rightarrow> search_result list
     \<Rightarrow> string \<Rightarrow> search_result list" where
  "rerank_results llm query results book_title =
     (if length results < 5 then results
      else
        (let results_to_rerank = take 15 results
         in case llm query results_to_rerank book_title of
              None \<Rightarrow> results
            | Some response \<Rightarrow>
                (let rankings = parse_rankings response (length results_to_rerank)
                 in if rankings \<noteq> [] then
                      (let rated =
                             map (\<lambda>(i, r).
                                    r\<lparr>rerank_score :=
                                        Some (case map_of rankings i of
                                                Some v \<Rightarrow> v
                                              | None \<Rightarrow> 1)\<rparr>)
                               (enumerate results_to_rerank);
                           reranked = sorted_desc rerank_key rated;
                           remaining = drop 15 results
                       in reranked @ remaining)
                    else results)))"

text \<open>
  \<^verbatim>\<open>process_query\<close> up to the results that become the context (\<^verbatim>\<open>top_results\<close>): every
  exception inside it is turned into \<^verbatim>\<open>AIQueryException\<close>.
\<close>

definition process_query_results ::
  "query_env \<Rightarrow> store \<Rightarrow> string \<Rightarrow> string \<Rightarrow> int \<Rightarrow> query_error + search_result list" where
  "process_query_results env s bid query current_location =
     (case query_book env bid of
        None \<Rightarrow> Inl AIQueryException
      | Some bk \<Rightarrow>
          (case query_location_boundary current_location (total_locations bk) of
             Inl e \<Rightarrow> Inl e
           | Inr location_boundary \<Rightarrow>
               (case embed_single_text env query of
                  None \<Rightarrow> Inl AIQueryException
                | Some query_embedding \<Rightarrow>
                    (case those (map (embed_single_text env)
                                   (expand_query env query (bk_title bk))) of
                       None \<Rightarrow> Inl AIQueryException
                     | Some expanded_embeddings \<Rightarrow>
                         (let all_results =
                                fuse_scores BM25_WEIGHT
                                  (retrieve env s bid query query_embedding expanded_embeddings
                                     location_boundary);
                              unique_results = deduplicate all_results
                          in if unique_results = [] then Inr []
                             else if length unique_results > 8 \<and> length (py_split query) > 3
                               then Inr (take 25 (rerank_results (judge env) query unique_results
                                                    (bk_title bk)))
                             else Inr (take 10 unique_results))))))"

section \<open>Properties of binary64 rounding\<close>

text \<open>
  Rounding is monotone, exact on the numbers \<open>m \<times> 2\<^sup>e\<close> with \<open>\<bar>m\<bar> < 2\<^sup>5\<^sup>3\<close>, and off by at
  most the fraction \<open>2\<^sup>-\<^sup>5\<^sup>3\<close> of a normal number. The lemmas \<open>fl64_eval_down\<close> and
  \<open>fl64_eval_up\<close> compute it at a concrete number whose binade is given.
\<close>
lemma py_round_of_int: "py_round (of_int n) = n"
  by (simp add: py_round_def)

lemma py_round_near: "\<bar>of_int (py_round x) - x\<bar> \<le> 1 / 2"
  unfolding py_round_def Let_def by (auto simp: abs_if) linarith+

lemma py_round_mono:
  assumes "x \<le> y"
  shows "py_round x \<le> py_round y"
proof (cases "\<lfloor>x\<rfloor> = \<lfloor>y\<rfloor>")
  case True
  then show ?thesis using assms unfolding py_round_def Let_def by auto
next
  case False
  then have "\<lfloor>x\<rfloor> < \<lfloor>y\<rfloor>" using assms floor_mono [of x y] by linarith
  moreover have "py_round x \<le> \<lfloor>x\<rfloor> + 1" unfolding py_round_def Let_def by auto
  moreover have "\<lfloor>y\<rfloor> \<le> py_round y" unfolding py_round_def Let_def by auto
  ultimately show ?thesis by linarith
qed

lemma py_round_nonneg: "0 \<le> x \<Longrightarrow> 0 \<le> py_round x"
  using py_round_mono [of 0 x] py_round_of_int [of 0] by simp

lemma binade_lower: "0 < a \<Longrightarrow> 2 powr of_int \<lfloor>log 2 a\<rfloor> \<le> a"
proof -
  assume a: "0 < a"
  have "of_int \<lfloor>log 2 a\<rfloor> \<le> log 2 a" by simp
  then have "2 powr of_int \<lfloor>log 2 a\<rfloor> \<le> 2 powr log 2 a" by (simp only: powr_le_cancel_iff) 
  then show ?thesis using a by simp
qed

lemma binade_upper: "0 < a \<Longrightarrow> a < 2 powr (of_int \<lfloor>log 2 a\<rfloor> + 1)"
proof -
  assume a: "0 < a"
  have "log 2 a < of_int \<lfloor>log 2 a\<rfloor> + 1" by linarith
  then have "2 powr log 2 a < 2 powr (of_int \<lfloor>log 2 a\<rfloor> + 1)" by (simp only: powr_less_cancel_iff)
  then show ?thesis using a by simp
qed

lemma floor_log2_eq:
  assumes "2 powr of_int k \<le> a" and "a < 2 powr (of_int k + 1)"
  shows "\<lfloor>log 2 a\<rfloor> = k"
proof -
  have a: "0 < a" using assms(1) powr_gt_zero [of 2 "of_int k"] by linarith
  have "of_int k \<le> log 2 a" using assms(1) a by (simp add: le_log_iff)
  moreover have "log 2 a < of_int k + 1" using assms(2) a by (simp add: log_less_iff)
  ultimately show ?thesis by linarith
qed

text \<open>The exponent of the unit in the last place of a positive number.\<close>

definition ulp_exp :: "real \<Rightarrow> int" where
  "ulp_exp a = max \<lfloor>log 2 a\<rfloor> (- 1022) - 52"

lemma fl64_pos: "0 < x \<Longrightarrow> fl64 x = of_int (py_round (x / 2 powr of_int (ulp_exp x))) * 2 powr of_int (ulp_exp x)"
  by (simp add: fl64_def ulp_exp_def Let_def)

lemma fl64_zero [simp]: "fl64 0 = 0"
  by (simp add: fl64_def)

lemma fl64_minus: "fl64 (- x) = - fl64 x"
  by (simp add: fl64_def Let_def sgn_minus)

lemma fl64_nonneg: "0 \<le> x \<Longrightarrow> 0 \<le> fl64 x"
proof (cases "x = 0")
  case True then show ?thesis by simp
next
  case False
  assume "0 \<le> x"
  then have x: "0 < x" using False by simp
  have "0 \<le> x / 2 powr of_int (ulp_exp x)" using x by simp
  then have "0 \<le> py_round (x / 2 powr of_int (ulp_exp x))" by (rule py_round_nonneg)
  then show ?thesis unfolding fl64_pos [OF x] by simp
qed

lemma powr_split: "2 powr (of_int (a + b)) = 2 powr of_int a * (2::real) powr of_int b"
  by (simp add: powr_add)

lemma two_powr_53: "(2::real) powr of_int 53 = 2 ^ 53"
  by (simp add: powr_numeral)

lemma two_powr_52: "(2::real) powr of_int 52 = 2 ^ 52"
  by (simp add: powr_numeral)

lemma fl64_upper_binade:
  assumes x: "0 < x"
  shows "fl64 x \<le> 2 powr of_int (ulp_exp x + 53)"
proof -
  define u where "u = (2::real) powr of_int (ulp_exp x)"
  have u: "0 < u" by (simp add: u_def)
  have "\<lfloor>log 2 x\<rfloor> + 1 \<le> ulp_exp x + 53" unfolding ulp_exp_def by linarith
  then have "real_of_int (\<lfloor>log 2 x\<rfloor> + 1) \<le> real_of_int (ulp_exp x + 53)"
    by (simp only: of_int_le_iff)
  then have "real_of_int \<lfloor>log 2 x\<rfloor> + 1 \<le> real_of_int (ulp_exp x + 53)"
    by (simp only: of_int_add of_int_1)
  then have "(2::real) powr (of_int \<lfloor>log 2 x\<rfloor> + 1) \<le> 2 powr of_int (ulp_exp x + 53)"
    by (rule powr_mono) simp
  then have "x \<le> 2 powr of_int (ulp_exp x + 53)" using binade_upper [OF x] by linarith
  also have "\<dots> = u * 2 ^ 53" unfolding powr_split two_powr_53 u_def by simp
  finally have "x / u \<le> 2 ^ 53" using u by (simp add: field_simps)
  then have "py_round (x / u) \<le> py_round (of_int (2 ^ 53))"
    by (intro py_round_mono) simp
  then have "py_round (x / u) \<le> 2 ^ 53" by (simp only: py_round_of_int)
  then have "real_of_int (py_round (x / u)) \<le> 2 ^ 53"
    by (metis of_int_le_iff of_int_numeral of_int_power)
  then have "of_int (py_round (x / u)) * u \<le> 2 ^ 53 * u" using u by simp
  then show ?thesis unfolding fl64_pos [OF x] powr_split two_powr_53 u_def by (simp add: mult.commute)
qed

lemma fl64_lower_binade:
  assumes x: "0 < x" and n: "- 1022 \<le> \<lfloor>log 2 x\<rfloor>"
  shows "2 powr of_int \<lfloor>log 2 x\<rfloor> \<le> fl64 x"
proof -
  define u where "u = (2::real) powr of_int (ulp_exp x)"
  have u: "0 < u" by (simp add: u_def)
  have e: "\<lfloor>log 2 x\<rfloor> = ulp_exp x + 52" using n unfolding ulp_exp_def by linarith
  have p: "2 powr of_int \<lfloor>log 2 x\<rfloor> = u * 2 ^ 52"
    unfolding e powr_split two_powr_52 u_def by simp
  then have "u * 2 ^ 52 \<le> x" using binade_lower [OF x] by simp
  then have "2 ^ 52 \<le> x / u" using u by (simp add: field_simps)
  then have "py_round (of_int (2 ^ 52)) \<le> py_round (x / u)"
    by (intro py_round_mono) simp
  then have "2 ^ 52 \<le> py_round (x / u)" by (simp only: py_round_of_int)
  then have "2 ^ 52 \<le> real_of_int (py_round (x / u))"
    by (metis of_int_le_iff of_int_numeral of_int_power)
  then have "2 ^ 52 * u \<le> of_int (py_round (x / u)) * u" using u by simp
  then show ?thesis unfolding fl64_pos [OF x] p u_def by (simp add: mult.commute)
qed

lemma ulp_exp_mono: "0 < x \<Longrightarrow> x \<le> y \<Longrightarrow> ulp_exp x \<le> ulp_exp y"
proof -
  assume "0 < x" "x \<le> y"
  then have "log 2 x \<le> log 2 y" by simp
  then have "\<lfloor>log 2 x\<rfloor> \<le> \<lfloor>log 2 y\<rfloor>" by (rule floor_mono)
  then show ?thesis unfolding ulp_exp_def by linarith
qed

lemma fl64_mono_pos:
  assumes x: "0 < x" and xy: "x \<le> y"
  shows "fl64 x \<le> fl64 y"
proof -
  have y: "0 < y" using x xy by linarith
  have le: "ulp_exp x \<le> ulp_exp y" using x xy by (rule ulp_exp_mono)
  show ?thesis
  proof (cases "ulp_exp x = ulp_exp y")
    case True
    have "x / 2 powr of_int (ulp_exp y) \<le> y / 2 powr of_int (ulp_exp y)"
      using xy by (simp add: divide_right_mono)
    then have "py_round (x / 2 powr of_int (ulp_exp y)) \<le> py_round (y / 2 powr of_int (ulp_exp y))"
      by (rule py_round_mono)
    then show ?thesis unfolding fl64_pos [OF x] fl64_pos [OF y] True by simp
  next
    case False
    then have lt: "ulp_exp x < ulp_exp y" using le by simp
    then have n: "- 1022 \<le> \<lfloor>log 2 y\<rfloor>" and ey: "\<lfloor>log 2 y\<rfloor> = ulp_exp y + 52"
      unfolding ulp_exp_def by linarith+
    have "ulp_exp x + 53 \<le> \<lfloor>log 2 y\<rfloor>" using lt ey by linarith
    then have "real_of_int (ulp_exp x + 53) \<le> real_of_int \<lfloor>log 2 y\<rfloor>"
      by (simp only: of_int_le_iff)
    then have "(2::real) powr of_int (ulp_exp x + 53) \<le> 2 powr of_int \<lfloor>log 2 y\<rfloor>"
      by (rule powr_mono) simp
    then show ?thesis
      using fl64_upper_binade [OF x] fl64_lower_binade [OF y n] by linarith
  qed
qed

lemma fl64_mono:
  assumes "x \<le> y"
  shows "fl64 x \<le> fl64 y"
proof -
  consider "0 < x" | "x \<le> 0" "0 \<le> y" | "y < 0" by linarith
  then show ?thesis
  proof cases
    case 1
    then show ?thesis using assms by (rule fl64_mono_pos)
  next
    case 2
    have "0 \<le> fl64 (- x)" using 2(1) by (intro fl64_nonneg) simp
    then have "fl64 x \<le> 0" by (simp add: fl64_minus)
    moreover have "0 \<le> fl64 y" using 2(2) by (rule fl64_nonneg)
    ultimately show ?thesis by linarith
  next
    case 3
    then have "fl64 (- y) \<le> fl64 (- x)" using assms by (intro fl64_mono_pos) simp_all
    then show ?thesis by (simp add: fl64_minus)
  qed
qed

lemma fl64_exact_dyadic:
  assumes m: "0 < m" "m < 2 ^ 53" and e: "- 1074 \<le> e"
  shows "fl64 (of_int m * 2 powr of_int e) = of_int m * 2 powr of_int e"
proof -
  define x :: real where "x = of_int m * 2 powr of_int e"
  define k where "k = ulp_exp x"
  define u where "u = (2::real) powr of_int k"
  have x: "0 < x" using m(1) by (simp add: x_def)
  have "real_of_int m < 2 ^ 53" using m(2) by (metis of_int_less_iff of_int_numeral of_int_power)
  then have "x < 2 ^ 53 * 2 powr of_int e" unfolding x_def by simp
  also have "\<dots> = 2 powr (of_int (53 + e))"
    by (simp add: powr_add two_powr_53)
  finally have "log 2 x < of_int (53 + e)" using x by (simp add: log_less_iff)
  then have hi: "\<lfloor>log 2 x\<rfloor> \<le> 52 + e" by linarith
  have ke: "k \<le> e" unfolding k_def ulp_exp_def using hi e by linarith
  define j where "j = nat (e - k)"
  have "real_of_int e = real_of_int k + of_int (int j)" using ke by (simp add: j_def)
  then have "(2::real) powr of_int e = 2 powr (real_of_int k + of_int (int j))" by simp
  also have "\<dots> = u * 2 ^ j"
    by (simp add: powr_add u_def powr_realpow)
  finally have pw: "(2::real) powr of_int e = u * 2 ^ j" .
  have u: "0 < u" by (simp add: u_def)
  have "x / u = of_int (m * 2 ^ j)" using u by (simp add: x_def pw)
  then have "py_round (x / u) = m * 2 ^ j" by (simp only: py_round_of_int)
  then have "fl64 x = of_int (m * 2 ^ j) * u"
    unfolding fl64_pos [OF x] by (simp add: k_def u_def)
  also have "\<dots> = x" by (simp add: x_def pw)
  finally show ?thesis by (simp add: x_def)
qed

lemma fl64_exact_pos:
  assumes m: "0 < m" "m < 2 ^ 53"
  shows "fl64 (of_int m * 2 ^ n) = of_int m * 2 ^ n"
  using fl64_exact_dyadic [OF m, of "int n"] by (simp add: powr_realpow)

lemma fl64_div_pow2:
  assumes m: "\<bar>m\<bar> < 2 ^ 53" and n: "n \<le> 1074"
  shows "fl64 (of_int m / 2 ^ n) = of_int m / 2 ^ n"
proof -
  have pw: "(2::real) powr of_int (- int n) = 1 / 2 ^ n"
    by (simp add: powr_minus powr_realpow divide_inverse)
  have pos: "fl64 (of_int j / 2 ^ n) = of_int j / 2 ^ n" if "0 < j" "j < 2 ^ 53" for j :: int
    using fl64_exact_dyadic [OF that, of "- int n"] n unfolding pw by simp
  consider "m = 0" | "0 < m" | "m < 0" by linarith
  then show ?thesis
  proof cases
    case 1 then show ?thesis by simp
  next
    case 2 then show ?thesis using pos [of m] m by simp
  next
    case 3
    then have "fl64 (of_int (- m) / 2 ^ n) = of_int (- m) / 2 ^ n" using pos [of "- m"] m by simp
    then show ?thesis using fl64_minus [of "of_int m / 2 ^ n"] by simp
  qed
qed

lemma fl64_pow2: "fl64 (2 ^ n) = 2 ^ n"
  using fl64_exact_pos [of 1 n] by simp

lemma fl64_of_int:
  assumes "\<bar>k\<bar> \<le> 2 ^ 53"
  shows "fl64 (of_int k) = of_int k"
proof -
  have pos: "fl64 (of_int j) = of_int j" if "0 < j" "j \<le> 2 ^ 53" for j :: int
  proof (cases "j = 2 ^ 53")
    case True
    then show ?thesis using fl64_pow2 [of 53] by simp
  next
    case False
    then have "j < 2 ^ 53" using that(2) by simp
    then show ?thesis using fl64_exact_pos [of j 0] that(1) by simp
  qed
  consider "k = 0" | "0 < k" | "k < 0" by linarith
  then show ?thesis
  proof cases
    case 1 then show ?thesis by simp
  next
    case 2 then show ?thesis using pos [of k] assms by simp
  next
    case 3
    then have "fl64 (of_int (- k)) = of_int (- k)" using pos [of "- k"] assms by simp
    then show ?thesis by (simp add: fl64_minus)
  qed
qed

lemma fl64_abs_le_pow2:
  assumes "\<bar>x\<bar> \<le> 2 ^ n"
  shows "\<bar>fl64 x\<bar> \<le> 2 ^ n"
proof -
  have "fl64 x \<le> fl64 (2 ^ n)" using assms by (intro fl64_mono) simp
  moreover have "fl64 (- (2 ^ n)) \<le> fl64 x" using assms by (intro fl64_mono) simp
  ultimately show ?thesis by (simp add: fl64_pow2 fl64_minus)
qed

lemma fl64_rel_error_pos:
  assumes a: "2 powr (- 1022) \<le> a"
  shows "\<bar>fl64 a - a\<bar> \<le> a / 2 ^ 53"
proof -
  have a0: "0 < a" using a powr_gt_zero [of 2 "- 1022"] by linarith
  have "- 1022 \<le> log 2 a" using a a0 by (simp add: le_log_iff)
  then have n: "- 1022 \<le> \<lfloor>log 2 a\<rfloor>" by (simp add: le_floor_iff)
  define u where "u = (2::real) powr of_int (ulp_exp a)"
  have u: "0 < u" by (simp add: u_def)
  have e: "\<lfloor>log 2 a\<rfloor> = ulp_exp a + 52" using n unfolding ulp_exp_def by linarith
  have p: "2 powr of_int \<lfloor>log 2 a\<rfloor> = u * 2 ^ 52"
    unfolding e powr_split two_powr_52 u_def by simp
  then have lower: "u * 2 ^ 52 \<le> a" using binade_lower [OF a0] by simp
  have "\<bar>of_int (py_round (a / u)) - a / u\<bar> \<le> 1 / 2" by (rule py_round_near)
  then have "\<bar>of_int (py_round (a / u)) - a / u\<bar> * u \<le> 1 / 2 * u"
    using u by (intro mult_right_mono) simp_all
  moreover have "\<bar>of_int (py_round (a / u)) - a / u\<bar> * u = \<bar>of_int (py_round (a / u)) * u - a\<bar>"
  proof -
    have "\<bar>of_int (py_round (a / u)) - a / u\<bar> * u = \<bar>(of_int (py_round (a / u)) - a / u) * u\<bar>"
      using u by (simp add: abs_mult)
    also have "(of_int (py_round (a / u)) - a / u) * u = of_int (py_round (a / u)) * u - a"
      using u by (simp add: left_diff_distrib)
    finally show ?thesis .
  qed
  ultimately have "\<bar>fl64 a - a\<bar> \<le> u / 2"
    unfolding fl64_pos [OF a0] u_def by simp
  also have "u / 2 \<le> a / 2 ^ 53" using lower by simp
  finally show ?thesis .
qed

lemma fl64_rel_error:
  assumes "2 powr (- 1022) \<le> \<bar>x\<bar>"
  shows "\<bar>fl64 x - x\<bar> \<le> \<bar>x\<bar> / 2 ^ 53"
proof (cases "0 \<le> x")
  case True
  then show ?thesis using fl64_rel_error_pos [of x] assms by simp
next
  case False
  then have "\<bar>fl64 (- x) - (- x)\<bar> \<le> (- x) / 2 ^ 53"
    using fl64_rel_error_pos [of "- x"] assms by simp
  then show ?thesis using False by (simp add: fl64_minus abs_if split: if_splits)
qed

lemma fl64_eval:
  assumes "2 powr of_int k \<le> x" "x < 2 powr of_int (k + 1)" "- 1022 \<le> k"
  shows "fl64 x = of_int (py_round (x / 2 powr of_int (k - 52))) * 2 powr of_int (k - 52)"
proof -
  have x: "0 < x" using assms(1) powr_gt_zero [of 2 "of_int k"] by linarith
  have "x < 2 powr (of_int k + 1)" using assms(2) by simp
  with assms(1) have "\<lfloor>log 2 x\<rfloor> = k" by (rule floor_log2_eq)
  then have "ulp_exp x = k - 52" using assms(3) by (simp add: ulp_exp_def)
  then show ?thesis using fl64_pos [OF x] by simp
qed

lemma fl64_eval_down:
  assumes n: "n \<le> 1074" and lo: "2 ^ 52 \<le> x * 2 ^ n" and hi: "x * 2 ^ n < 2 ^ 53"
  shows "fl64 x = of_int (py_round (x * 2 ^ n)) / 2 ^ n"
proof -
  define k where "k = 52 - int n"
  have pn: "(2::real) powr of_int (k - 52) = 1 / 2 ^ n"
    by (simp add: k_def powr_minus powr_realpow divide_inverse)
  have "(2::real) powr of_int k = 2 powr (of_int (k - 52) + 52)" by simp
  also have "\<dots> = 2 ^ 52 / 2 ^ n" unfolding powr_add pn two_powr_52 by simp
  finally have pk: "(2::real) powr of_int k = 2 ^ 52 / 2 ^ n" .
  have "(2::real) powr of_int (k + 1) = 2 powr (of_int (k - 52) + 53)" by (simp add: add.commute)
  also have "\<dots> = 2 ^ 53 / 2 ^ n" unfolding powr_add pn two_powr_53 by simp
  finally have pk1: "(2::real) powr of_int (k + 1) = 2 ^ 53 / 2 ^ n" .
  have a: "2 powr of_int k \<le> x" unfolding pk using lo by (simp add: field_simps)
  have b: "x < 2 powr of_int (k + 1)" unfolding pk1 using hi by (simp add: field_simps)
  have c: "- 1022 \<le> k" using n by (simp add: k_def)
  show ?thesis using fl64_eval [OF a b c] unfolding pn by simp
qed

lemma fl64_eval_up:
  assumes lo: "2 ^ 52 \<le> x / 2 ^ n" and hi: "x / 2 ^ n < 2 ^ 53"
  shows "fl64 x = of_int (py_round (x / 2 ^ n)) * 2 ^ n"
proof -
  define k where "k = 52 + int n"
  have pn: "(2::real) powr of_int (k - 52) = 2 ^ n"
    by (simp add: k_def powr_realpow)
  have "(2::real) powr of_int k = 2 powr (of_int (k - 52) + 52)" by simp
  also have "\<dots> = 2 ^ 52 * 2 ^ n" unfolding powr_add pn two_powr_52 by simp
  finally have pk: "(2::real) powr of_int k = 2 ^ 52 * 2 ^ n" .
  have "(2::real) powr of_int (k + 1) = 2 powr (of_int (k - 52) + 53)" by (simp add: add.commute)
  also have "\<dots> = 2 ^ 53 * 2 ^ n" unfolding powr_add pn two_powr_53 by simp
  finally have pk1: "(2::real) powr of_int (k + 1) = 2 ^ 53 * 2 ^ n" .
  have a: "2 powr of_int k \<le> x" unfolding pk using lo by (simp add: field_simps)
  have b: "x < 2 powr of_int (k + 1)" unfolding pk1 using hi by (simp add: field_simps)
  have c: "- 1022 \<le> k" by (simp add: k_def)
  show ?thesis using fl64_eval [OF a b c] unfolding pn by simp
qed

lemma round64_finite:
  assumes "\<bar>x\<bar> \<le> 2 ^ n" "n < 1024"
  shows "round64 x = Finite (fl64 x)"
proof -
  have "\<bar>fl64 x\<bar> \<le> 2 ^ n" using assms(1) by (rule fl64_abs_le_pow2)
  moreover have "(2::real) ^ n < 2 ^ 1024" using assms(2) by (intro power_strict_increasing) simp_all
  ultimately have "\<not> 2 ^ 1024 \<le> fl64 x" "\<not> fl64 x \<le> - (2 ^ 1024)" by linarith+
  then show ?thesis by (simp add: round64_def Let_def)
qed

lemma fl64_numeral: "(numeral w :: int) \<le> 2 ^ 53 \<Longrightarrow> fl64 (numeral w) = numeral w"
  using fl64_of_int [of "numeral w"] by simp

lemma fl64_one: "fl64 1 = 1"
  using fl64_of_int [of 1] by simp

lemma fl64_rel:
  assumes "2 powr (- 1022) \<le> a"
  shows "a * (1 - 1 / 2 ^ 53) \<le> fl64 a" and "fl64 a \<le> a * (1 + 1 / 2 ^ 53)"
proof -
  have d: "\<bar>fl64 a - a\<bar> \<le> a / 2 ^ 53" using assms by (rule fl64_rel_error_pos)
  have l: "a * (1 - 1 / 2 ^ 53) = a - a / 2 ^ 53" by (simp add: algebra_simps)
  have u: "a * (1 + 1 / 2 ^ 53) = a + a / 2 ^ 53" by (simp add: algebra_simps)
  show "a * (1 - 1 / 2 ^ 53) \<le> fl64 a" unfolding l using d by linarith
  show "fl64 a \<le> a * (1 + 1 / 2 ^ 53)" unfolding u using d by linarith
qed

lemma clamp_pct_nonpos:
  assumes "q \<le> 0"
  shows "(case float_mul q 100 of Finite p \<Rightarrow> min 100 (max 0 p) | PosInf \<Rightarrow> 100 | NegInf \<Rightarrow> 0) = (0::real)"
proof -
  have "q * 100 \<le> 0" using assms by simp
  then have "fl64 (q * 100) \<le> fl64 0" by (rule fl64_mono)
  then have "fl64 (q * 100) \<le> 0" by simp
  then show ?thesis by (simp add: float_mul_def round64_def Let_def)
qed

lemma clamp_pct_ge:
  assumes "1 \<le> q"
  shows "(case float_mul q 100 of Finite p \<Rightarrow> min 100 (max 0 p) | PosInf \<Rightarrow> 100 | NegInf \<Rightarrow> 0) = (100::real)"
proof -
  have "100 \<le> q * 100" using assms by simp
  then have "fl64 100 \<le> fl64 (q * 100)" by (rule fl64_mono)
  then have "100 \<le> fl64 (q * 100)" by (simp add: fl64_numeral)
  then show ?thesis by (simp add: float_mul_def round64_def Let_def)
qed

lemma round64_Finite: "round64 x = Finite r \<Longrightarrow> r = fl64 x"
  by (simp add: round64_def Let_def split: if_splits)

lemma float_of_int_Inr: "float_of_int k = Inr r \<Longrightarrow> r = fl64 (of_int k)"
  by (auto simp: float_of_int_def split: pyfloat.splits dest: round64_Finite)


lemma powr_neg_nat: "(2::real) powr (- real n) = 1 / 2 ^ n"
  by (simp add: powr_minus powr_realpow divide_inverse)

lemma normal_ge: "1 / 2 ^ 60 \<le> a \<Longrightarrow> 2 powr (- 1022) \<le> (a::real)"
proof -
  assume a: "1 / 2 ^ 60 \<le> a"
  have "(2::real) powr (- 1022) \<le> 2 powr (- real (60::nat))" by (rule powr_mono) simp_all
  also have "\<dots> = 1 / 2 ^ 60" by (rule powr_neg_nat)
  finally show ?thesis using a by linarith
qed

lemma eps_facts:
  fixes e0 e1 :: real
  defines "e0 \<equiv> 1 - 1 / 2 ^ 53" and "e1 \<equiv> 1 + 1 / 2 ^ 53"
  shows "1 / 2 \<le> e0 * e0 * e0" "e1 * e1 * e1 * e1 \<le> 1 + 5 / 2 ^ 53"
    "1 - 5 / 2 ^ 53 \<le> e0 * e0 * e0 * e0" "(1 - 1 / 2 ^ 51) * (e1 * e1) < 1" "0 < e0" "e0 \<le> 1" "1 \<le> e1"
  unfolding e0_def e1_def by simp_all

text \<open>One rounding step: a bracket of \<open>a\<close> around \<open>x\<close> widens by the unit roundoff.\<close>

lemma fl64_step:
  assumes lo: "x * lo \<le> a" and hi: "a \<le> x * hi" and x: "1 / 2 ^ 59 \<le> x" and l: "1 / 2 \<le> lo"
  shows "x * (lo * (1 - 1 / 2 ^ 53)) \<le> fl64 a" and "fl64 a \<le> x * (hi * (1 + 1 / 2 ^ 53))"
proof -
  have "(0::real) < 1 / 2 ^ 59" by simp
  then have x0: "0 < x" using x by linarith
  have "1 / 2 ^ 59 * (1 / 2) \<le> x * lo" using x l by (intro mult_mono) simp_all
  then have "1 / 2 ^ 60 \<le> a" using lo by simp
  then have n: "2 powr (- 1022) \<le> a" by (rule normal_ge)
  have "x * lo * (1 - 1 / 2 ^ 53) \<le> a * (1 - 1 / 2 ^ 53)"
    using lo by (intro mult_right_mono) simp_all
  also have "\<dots> \<le> fl64 a" using n by (rule fl64_rel)
  finally show "x * (lo * (1 - 1 / 2 ^ 53)) \<le> fl64 a" by (simp only: mult.assoc)
  have "fl64 a \<le> a * (1 + 1 / 2 ^ 53)" using n by (rule fl64_rel)
  also have "\<dots> \<le> x * hi * (1 + 1 / 2 ^ 53)"
    using hi by (intro mult_right_mono) simp_all
  finally show "fl64 a \<le> x * (hi * (1 + 1 / 2 ^ 53))" by (simp only: mult.assoc)
qed

lemma float_of_int_small: "\<bar>k\<bar> \<le> 2 ^ 53 \<Longrightarrow> float_of_int k = Inr (of_int k)"
proof -
  assume k: "\<bar>k\<bar> \<le> 2 ^ 53"
  then have "\<bar>real_of_int k\<bar> \<le> 2 ^ 53"
    by (metis of_int_abs of_int_le_iff of_int_numeral of_int_power)
  then have "round64 (of_int k) = Finite (fl64 (of_int k))" by (rule round64_finite) simp
  then show ?thesis using fl64_of_int [OF k] by (simp add: float_of_int_def)
qed

lemma py_round_within:
  assumes "of_int n - 3 / 2 < z" "z < of_int n + 3 / 2"
  shows "n - 1 \<le> py_round z" "py_round z \<le> n + 1"
proof -
  have "\<bar>of_int (py_round z) - z\<bar> \<le> 1 / 2" by (rule py_round_near)
  then have "real_of_int (py_round z) < of_int n + 2" "of_int n - 2 < real_of_int (py_round z)"
    using assms by linarith+
  then have "py_round z < n + 2" "n - 2 < py_round z" by linarith+
  then show "n - 1 \<le> py_round z" "py_round z \<le> n + 1" by linarith+
qed

section \<open>Properties of the location model\<close>

text \<open>
  Claim C4, as stated, fails: with \<open>total = 0\<close> and a positive current location the
  function returns the current location itself, which is neither \<open>total\<close> (the claimed
  result for \<open>currentLocation > total\<close>) nor \<open>1\<close> (the claimed result for \<open>total = 0\<close>).
\<close>

theorem C4_boundary_total_zero_counterexample:
  "(5::int) > 0 \<and> calculate_location_boundary 5 0 = 5
   \<and> calculate_location_boundary 5 0 \<noteq> 0 \<and> calculate_location_boundary 5 0 \<noteq> 1"
  by (simp add: calculate_location_boundary_def)

text \<open>
  Claim C4, amended: the boundary is \<open>1\<close> if the current location is not positive; it is
  \<open>total\<close> if the current location is positive, \<open>total\<close> is not zero and the current
  location exceeds \<open>total\<close>; otherwise it is the current location. For \<open>total = 0\<close> no
  upper clamp is applied: the result is \<open>max 1 currentLocation\<close>, and no division occurs.
\<close>

theorem C4_boundary_cases:
  "(c \<le> 0 \<longrightarrow> calculate_location_boundary c t = 1)
   \<and> (0 < c \<and> t \<noteq> 0 \<and> t < c \<longrightarrow> calculate_location_boundary c t = t)
   \<and> (0 < c \<and> (t = 0 \<or> c \<le> t) \<longrightarrow> calculate_location_boundary c t = c)
   \<and> calculate_location_boundary c 0 = max 1 c"
  by (auto simp: calculate_location_boundary_def)

theorem C4_boundary_cases_witness:
  "calculate_location_boundary 0 10 = 1
   \<and> calculate_location_boundary 15 10 = 10
   \<and> calculate_location_boundary 5 10 = 5
   \<and> calculate_location_boundary 5 0 = 5"
  using C4_boundary_cases [of 0 10] C4_boundary_cases [of 15 10]
        C4_boundary_cases [of 5 10] C4_boundary_cases [of 5 0]
  by simp

lemma roundtrip_interior:
  assumes loc: "0 < loc" "loc < tot" and tot: "tot \<le> 2 ^ 51"
  shows "\<exists>p l. get_percentage_from_location loc tot = Inr p
           \<and> get_location_from_percentage p tot = Inr l \<and> \<bar>l - loc\<bar> \<le> 1"
proof -
  define L T :: real where "L = of_int loc" and "T = of_int tot"
  define e0 e1 :: real where "e0 = 1 - 1 / 2 ^ 53" and "e1 = 1 + 1 / 2 ^ 53"
  note ef = eps_facts [folded e0_def e1_def]
  have L1: "1 \<le> L" using loc(1) by (simp add: L_def)
  have LT: "L + 1 \<le> T" using loc(2) unfolding L_def T_def by linarith
  have T51: "T \<le> 2 ^ 51" using tot unfolding T_def
    by (metis of_int_le_iff of_int_numeral of_int_power)
  have T0: "0 < T" using L1 LT by linarith
  define x where "x = L / T"
  have xT: "x * T = L" using T0 by (simp add: x_def)
  have swap: "x * c * T = L * c" for c
  proof -
    have "x * c * T = (x * T) * c" by (simp add: mult_ac)
    then show ?thesis by (simp only: xT)
  qed
  have x_lo: "1 / 2 ^ 51 \<le> x"
  proof -
    have "1 / 2 ^ 51 \<le> 1 / T" using T51 T0 by (simp add: frac_le)
    also have "\<dots> \<le> L / T" using L1 T0 by (simp add: divide_right_mono)
    finally show ?thesis by (simp add: x_def)
  qed
  have x59: "1 / 2 ^ 59 \<le> x" using x_lo by simp
  have x0: "0 < x" using L1 T0 by (simp add: x_def)
  have x_hi: "x \<le> 1 - 1 / 2 ^ 51"
  proof -
    have "x = 1 - (T - L) / T" using T0 by (simp add: x_def field_simps)
    moreover have "1 / T \<le> (T - L) / T" using LT T0 by (simp add: divide_right_mono)
    moreover have "1 / 2 ^ 51 \<le> 1 / T" using T51 T0 by (simp add: frac_le)
    ultimately show ?thesis by linarith
  qed
  text \<open>The quotient.\<close>
  define q where "q = fl64 x"
  have "\<bar>x\<bar> \<le> 2 ^ 0" using x0 x_hi by simp
  then have "round64 x = Finite q" unfolding q_def by (rule round64_finite) simp
  then have div: "int_truediv loc tot = Inr q"
    using loc by (simp add: int_truediv_def x_def L_def T_def)
  have q: "x * (1 * e0) \<le> q" "q \<le> x * (1 * e1)"
  proof -
    have a: "x * 1 \<le> x" "x \<le> x * 1" "1 / 2 \<le> (1::real)" by simp_all
    show "x * (1 * e0) \<le> q" "q \<le> x * (1 * e1)"
      unfolding q_def e0_def e1_def using fl64_step [OF a(1,2) x59 a(3)] by blast+
  qed
  text \<open>The percentage.\<close>
  define y where "y = fl64 (q * 100)"
  have y: "x * (100 * e0 * e0) \<le> y" "y \<le> x * (100 * e1 * e1)"
  proof -
    have a: "x * (100 * e0) \<le> q * 100" "q * 100 \<le> x * (100 * e1)" using q by simp_all
    have b: "1 / 2 \<le> 100 * e0" using ef(5,6) unfolding e0_def by simp
    show "x * (100 * e0 * e0) \<le> y" "y \<le> x * (100 * e1 * e1)"
      unfolding y_def using fl64_step [OF a x59 b] by (simp_all add: e0_def e1_def mult.assoc)
  qed
  have y0: "0 < y"
  proof -
    have "0 < x * (100 * e0 * e0)" using x0 ef(5) by simp
    then show ?thesis using y(1) by linarith
  qed
  have y100: "y < 100"
  proof -
    have "x * (e1 * e1) \<le> (1 - 1 / 2 ^ 51) * (e1 * e1)"
      using x_hi ef(7) by (intro mult_right_mono) simp_all
    then have "x * (e1 * e1) < 1" using ef(4) by linarith
    then have "x * (100 * e1 * e1) < 100" by simp
    then show ?thesis using y(2) by linarith
  qed
  have "\<bar>q * 100\<bar> \<le> 2 ^ 8"
  proof -
    have "x * (1 * e1) \<le> 1 * 2" using x_hi x0 ef(7) unfolding e1_def
      by (intro mult_mono) simp_all
    then have "q \<le> 2" using q(2) by linarith
    moreover have "0 \<le> x * (1 * e0)" using x0 ef(5) by simp
    then have "0 \<le> q" using q(1) by linarith
    ultimately show ?thesis by simp
  qed
  then have "round64 (q * 100) = Finite y" unfolding y_def by (rule round64_finite) simp
  then have pct: "get_percentage_from_location loc tot = Inr y"
    using loc div y0 y100 by (simp add: get_percentage_from_location_def float_mul_def)
  text \<open>Back: the fraction, and the product with the total.\<close>
  define r where "r = fl64 (y / 100)"
  have r: "x * (e0 * e0 * e0) \<le> r" "r \<le> x * (e1 * e1 * e1)"
  proof -
    have a: "x * (e0 * e0) \<le> y / 100" "y / 100 \<le> x * (e1 * e1)" using y by simp_all
    have "e0 * e0 * e0 \<le> (e0 * e0) * 1" using ef(5,6) by (intro mult_left_mono) simp_all
    then have b: "1 / 2 \<le> e0 * e0" using ef(1) by simp
    show "x * (e0 * e0 * e0) \<le> r" "r \<le> x * (e1 * e1 * e1)"
      unfolding r_def using fl64_step [OF a x59 b] by (simp_all add: e0_def e1_def mult.assoc)
  qed
  have "\<bar>y / 100\<bar> \<le> 2 ^ 0" using y0 y100 by simp
  then have fdiv: "float_div y 100 = Finite r"
    unfolding r_def float_div_def by (rule round64_finite) simp
  have ft: "float_of_int tot = Inr T"
    unfolding T_def using loc tot by (intro float_of_int_small) simp
  define z where "z = fl64 (r * T)"
  have L59: "1 / 2 ^ 59 \<le> L" using L1 by simp
  have z: "L * (e0 * e0 * e0 * e0) \<le> z" "z \<le> L * (e1 * e1 * e1 * e1)"
  proof -
    have "x * (e0 * e0 * e0) * T \<le> r * T" "r * T \<le> x * (e1 * e1 * e1) * T"
      using r T0 by (simp_all add: mult_right_mono)
    then have a: "L * (e0 * e0 * e0) \<le> r * T" "r * T \<le> L * (e1 * e1 * e1)"
      by (simp_all only: swap)
    show "L * (e0 * e0 * e0 * e0) \<le> z" "z \<le> L * (e1 * e1 * e1 * e1)"
      unfolding z_def using fl64_step [OF a L59 ef(1)] by (simp_all add: e0_def e1_def mult.assoc)
  qed
  have L51: "L \<le> 2 ^ 51" using LT T51 by linarith
  have z_hi: "z \<le> L + 5 / 4"
  proof -
    have "L * (e1 * e1 * e1 * e1) \<le> L * (1 + 5 / 2 ^ 53)"
      using ef(2) L1 by (intro mult_left_mono) simp_all
    also have "\<dots> = L + L * (5 / 2 ^ 53)" by (simp add: algebra_simps)
    also have "L * (5 / 2 ^ 53) \<le> 2 ^ 51 * (5 / 2 ^ 53)" using L51 by (intro mult_right_mono) simp_all
    finally show ?thesis using z(2) by simp
  qed
  have z_lo: "L - 5 / 4 \<le> z"
  proof -
    have "L * (5 / 2 ^ 53) \<le> 2 ^ 51 * (5 / 2 ^ 53)" using L51 by (intro mult_right_mono) simp_all
    then have "L - 5 / 4 \<le> L - L * (5 / 2 ^ 53)" by simp
    also have "\<dots> = L * (1 - 5 / 2 ^ 53)" by (simp add: algebra_simps)
    also have "\<dots> \<le> L * (e0 * e0 * e0 * e0)"
      using ef(3) L1 by (intro mult_left_mono) simp_all
    finally show ?thesis using z(1) by linarith
  qed
  have "\<bar>r * T\<bar> \<le> 2 ^ 52"
  proof -
    have "r * T \<le> L * (e1 * e1 * e1)" "0 \<le> r * T"
    proof -
      have "x * (e0 * e0 * e0) * T \<le> r * T" "r * T \<le> x * (e1 * e1 * e1) * T"
        using r T0 by (simp_all add: mult_right_mono)
      then show "r * T \<le> L * (e1 * e1 * e1)"
        by (simp_all only: swap)
      have "0 \<le> x * (e0 * e0 * e0)" using x0 ef(5) by simp
      then have "0 \<le> r" using r(1) by linarith
      then show "0 \<le> r * T" using T0 by simp
    qed
    moreover have "L * (e1 * e1 * e1) \<le> L * (e1 * e1 * e1 * e1)"
    proof -
      have "e1 * e1 * e1 * 1 \<le> e1 * e1 * e1 * e1" using ef(7) by (intro mult_left_mono) simp_all
      then show ?thesis using L1 by (intro mult_left_mono) simp_all
    qed
    moreover have "L * (e1 * e1 * e1 * e1) \<le> L * (1 + 5 / 2 ^ 53)"
      using ef(2) L1 by (intro mult_left_mono) simp_all
    moreover have "L * (1 + 5 / 2 ^ 53) \<le> 2 ^ 51 * (1 + 5 / 2 ^ 53)"
      using L51 by (intro mult_right_mono) simp_all
    ultimately show ?thesis by simp
  qed
  then have fmul: "float_mul r T = Finite z"
    unfolding z_def float_mul_def by (rule round64_finite) simp
  define l where "l = max 1 (min tot (py_round z))"
  have inv: "get_location_from_percentage y tot = Inr l"
    using y0 y100 loc fdiv ft fmul by (simp add: get_location_from_percentage_def l_def)
  have "of_int loc - 3 / 2 < z" "z < of_int loc + 3 / 2"
    using z_lo z_hi unfolding L_def by linarith+
  then have "loc - 1 \<le> py_round z" "py_round z \<le> loc + 1" by (rule py_round_within)+
  then have "\<bar>l - loc\<bar> \<le> 1" using loc unfolding l_def by linarith
  with pct inv show ?thesis by blast
qed

lemma int_truediv_bounded:
  assumes tot: "0 < tot" and loc: "\<bar>loc\<bar> \<le> 2 ^ 1000"
  shows "int_truediv loc tot = Inr (fl64 (of_int loc / of_int tot))"
proof -
  have "\<bar>real_of_int loc\<bar> \<le> 2 ^ 1000" using loc
    by (metis of_int_abs of_int_le_iff of_int_numeral of_int_power)
  moreover have "1 \<le> real_of_int tot" using tot by simp
  ultimately have "\<bar>real_of_int loc\<bar> / real_of_int tot \<le> 2 ^ 1000 / 1"
    by (intro frac_le) simp_all
  then have "\<bar>real_of_int loc / real_of_int tot\<bar> \<le> 2 ^ 1000" using tot by simp
  then have "round64 (of_int loc / of_int tot) = Finite (fl64 (of_int loc / of_int tot))"
    by (rule round64_finite) simp
  then show ?thesis using tot by (simp add: int_truediv_def)
qed

lemma fl64_ten_16: "fl64 10000000000000000 = 10000000000000000"
  using fl64_exact_pos [of 152587890625 16] by simp

lemma drift_percentage:
  "get_percentage_from_location 9647800781216126 10000000000000000
     = Inr (6789036250504645 / 2 ^ 46)"
proof -
  have q: "fl64 (9647800781216126 / 10000000000000000) = 8689966400645945 / 2 ^ 53"
    by (subst fl64_eval_down [where n = 53]) (simp_all add: py_round_def)
  have "\<bar>9647800781216126 / 10000000000000000 :: real\<bar> \<le> 2 ^ 0" by simp
  then have "round64 (9647800781216126 / 10000000000000000)
             = Finite (fl64 (9647800781216126 / 10000000000000000))"
    by (rule round64_finite) simp
  then have div: "int_truediv 9647800781216126 10000000000000000 = Inr (8689966400645945 / 2 ^ 53)"
    unfolding q by (simp add: int_truediv_def)
  have y: "fl64 (8689966400645945 / 2 ^ 53 * 100) = 6789036250504645 / 2 ^ 46"
    by (subst fl64_eval_down [where n = 46]) (simp_all add: py_round_def)
  have "\<bar>8689966400645945 / 2 ^ 53 * 100 :: real\<bar> \<le> 2 ^ 7" by simp
  then have "round64 (8689966400645945 / 2 ^ 53 * 100)
             = Finite (fl64 (8689966400645945 / 2 ^ 53 * 100))"
    by (rule round64_finite) simp
  then have mul: "float_mul (8689966400645945 / 2 ^ 53) 100 = Finite (6789036250504645 / 2 ^ 46)"
    unfolding y by (simp add: float_mul_def)
  show ?thesis
    using div mul by (simp add: get_percentage_from_location_def)
qed

lemma drift_location:
  "get_location_from_percentage (6789036250504645 / 2 ^ 46) 10000000000000000
     = Inr 9647800781216128"
proof -
  have r: "fl64 (6789036250504645 / 2 ^ 46 / 100) = 4344983200322973 / 2 ^ 52"
    by (subst fl64_eval_down [where n = 53]) (simp_all add: py_round_def)
  have "\<bar>6789036250504645 / 2 ^ 46 / 100 :: real\<bar> \<le> 2 ^ 0" by simp
  then have "round64 (6789036250504645 / 2 ^ 46 / 100)
             = Finite (fl64 (6789036250504645 / 2 ^ 46 / 100))"
    by (rule round64_finite) simp
  then have fdiv: "float_div (6789036250504645 / 2 ^ 46) 100 = Finite (4344983200322973 / 2 ^ 52)"
    unfolding r by (simp add: float_div_def)
  have "\<bar>real_of_int 10000000000000000\<bar> \<le> 2 ^ 54" by simp
  then have "round64 (of_int 10000000000000000) = Finite (fl64 (of_int 10000000000000000))"
    by (rule round64_finite) simp
  then have ft: "float_of_int 10000000000000000 = Inr 10000000000000000"
    by (simp add: float_of_int_def fl64_ten_16)
  have z: "fl64 (4344983200322973 / 2 ^ 52 * 10000000000000000) = 9647800781216128"
    by (subst fl64_eval_up [where n = 1]) (simp_all add: py_round_def)
  have "\<bar>4344983200322973 / 2 ^ 52 * 10000000000000000 :: real\<bar> \<le> 2 ^ 54" by simp
  then have "round64 (4344983200322973 / 2 ^ 52 * 10000000000000000)
             = Finite (fl64 (4344983200322973 / 2 ^ 52 * 10000000000000000))"
    by (rule round64_finite) simp
  then have fmul: "float_mul (4344983200322973 / 2 ^ 52) 10000000000000000 = Finite 9647800781216128"
    unfolding z by (simp add: float_mul_def)
  have p: "\<not> (6789036250504645 / 2 ^ 46 :: real) \<le> 0" "\<not> (6789036250504645 / 2 ^ 46 :: real) \<ge> 100"
    by simp_all
  have pr: "py_round 9647800781216128 = 9647800781216128"
    using py_round_of_int [of 9647800781216128] by simp
  show ?thesis
    using p fdiv ft fmul pr by (simp add: get_location_from_percentage_def)
qed

lemma overflow_percentage: "get_percentage_from_location (2 ^ 1024) 1 = Inl OverflowError"
proof -
  have "fl64 (2 ^ 1024) = 2 ^ 1024" by (rule fl64_pow2)
  then have "round64 (2 ^ 1024) = PosInf" by (simp add: round64_def)
  then show ?thesis by (simp add: get_percentage_from_location_def int_truediv_def)
qed

text \<open>
  Claim C6, as stated, fails in binary64 arithmetic. In a book of \<open>10\<^sup>1\<^sup>6\<close> locations the
  location 9647800781216126 becomes the percentage \<open>6789036250504645 / 2\<^sup>4\<^sup>6\<close>, which
  converts back to the location 9647800781216128, two locations away. And for the
  location \<open>2\<^sup>1\<^sup>0\<^sup>2\<^sup>4\<close> in a book of one location the integer division raises
  \<^verbatim>\<open>OverflowError\<close>: the round trip gives no location at all.
\<close>

theorem C6_roundtrip_counterexample:
  "get_percentage_from_location 9647800781216126 10000000000000000
     = Inr (6789036250504645 / 2 ^ 46)
   \<and> get_location_from_percentage (6789036250504645 / 2 ^ 46) 10000000000000000
     = Inr 9647800781216128
   \<and> clamp 9647800781216126 1 10000000000000000 = 9647800781216126
   \<and> \<not> \<bar>9647800781216128 - clamp 9647800781216126 1 10000000000000000\<bar> \<le> (1::int)
   \<and> get_percentage_from_location (2 ^ 1024) 1 = Inl OverflowError"
  using drift_percentage drift_location overflow_percentage by (simp add: clamp_def)

text \<open>
  Claim C6, amended: for every total with \<open>0 < total \<le> 2\<^sup>5\<^sup>1\<close> and every integer \<open>loc\<close>
  with \<open>\<bar>loc\<bar> \<le> 2\<^sup>1\<^sup>0\<^sup>0\<^sup>0\<close>, converting the location to a percentage and back raises
  nothing and gives a location within 1 of \<open>clamp(loc, 1, total)\<close>.
\<close>

theorem C6_percentage_roundtrip:
  assumes tot: "0 < tot" "tot \<le> 2 ^ 51" and loc: "\<bar>loc\<bar> \<le> 2 ^ 1000"
  shows "\<exists>p l. get_percentage_from_location loc tot = Inr p
           \<and> get_location_from_percentage p tot = Inr l \<and> \<bar>l - clamp loc 1 tot\<bar> \<le> 1"
proof -
  define q where "q = fl64 (of_int loc / of_int tot)"
  have div: "int_truediv loc tot = Inr q"
    unfolding q_def using tot(1) loc by (rule int_truediv_bounded)
  have t: "(0::real) < of_int tot" using tot(1) by simp
  consider "loc \<le> 0" | "tot \<le> loc" | "0 < loc" "loc < tot" by linarith
  then show ?thesis
  proof cases
    case 1
    then have "real_of_int loc / of_int tot \<le> 0" using t by (simp add: divide_nonpos_pos)
    then have "q \<le> fl64 0" unfolding q_def by (rule fl64_mono)
    then have "q \<le> 0" by simp
    then have "get_percentage_from_location loc tot = Inr 0"
      using tot(1) div by (simp add: get_percentage_from_location_def clamp_pct_nonpos)
    moreover have "get_location_from_percentage 0 tot = Inr 1"
      by (simp add: get_location_from_percentage_def)
    moreover have "clamp loc 1 tot = 1" using 1 tot(1) by (simp add: clamp_def)
    ultimately show ?thesis by simp
  next
    case 2
    then have "1 \<le> real_of_int loc / of_int tot" using t by simp
    then have "fl64 1 \<le> q" unfolding q_def by (rule fl64_mono)
    then have "1 \<le> q" by (simp add: fl64_one)
    then have "get_percentage_from_location loc tot = Inr 100"
      using tot(1) div by (simp add: get_percentage_from_location_def clamp_pct_ge)
    moreover have "get_location_from_percentage 100 tot = Inr tot"
      using tot(1) by (simp add: get_location_from_percentage_def)
    moreover have "clamp loc 1 tot = tot" using 2 tot(1) by (simp add: clamp_def)
    ultimately show ?thesis by simp
  next
    case 3
    then have "clamp loc 1 tot = loc" by (simp add: clamp_def)
    then show ?thesis using roundtrip_interior [OF 3 tot(2)] by simp
  qed
qed

theorem C6_percentage_roundtrip_witness:
  "(0::int) < 7 \<and> (7::int) \<le> 2 ^ 51 \<and> \<bar>3::int\<bar> \<le> 2 ^ 1000
   \<and> (\<exists>p l. get_percentage_from_location 3 7 = Inr p
          \<and> get_location_from_percentage p 7 = Inr l \<and> \<bar>l - clamp 3 1 7\<bar> \<le> 1)"
  using C6_percentage_roundtrip [of 7 3] by simp

text \<open>
  In exact arithmetic 70 percent of 45 locations is the position 31.5, which rounds to 32.
  The float \<open>70.0 / 100.0\<close> is below 0.7, the product is below 31.5, and the code
  returns 31.
\<close>

lemma example_location_from_percentage: "get_location_from_percentage 70 45 = Inr 31"
proof -
  have r: "fl64 (70 / 100) = 3152519739159347 / 2 ^ 52"
    by (subst fl64_eval_down [where n = 53]) (simp_all add: py_round_def)
  have "\<bar>70 / 100 :: real\<bar> \<le> 2 ^ 0" by simp
  then have "round64 (70 / 100) = Finite (fl64 (70 / 100))" by (rule round64_finite) simp
  then have fdiv: "float_div 70 100 = Finite (3152519739159347 / 2 ^ 52)"
    unfolding r by (simp add: float_div_def)
  have ft: "float_of_int 45 = Inr 45"
    using float_of_int_small [of 45] by simp
  have z: "fl64 (3152519739159347 / 2 ^ 52 * 45) = 8866461766385663 / 2 ^ 48"
    by (subst fl64_eval_down [where n = 48]) (simp_all add: py_round_def)
  have "\<bar>3152519739159347 / 2 ^ 52 * 45 :: real\<bar> \<le> 2 ^ 6" by simp
  then have "round64 (3152519739159347 / 2 ^ 52 * 45) = Finite (fl64 (3152519739159347 / 2 ^ 52 * 45))"
    by (rule round64_finite) simp
  then have fmul: "float_mul (3152519739159347 / 2 ^ 52) 45 = Finite (8866461766385663 / 2 ^ 48)"
    unfolding z by (simp add: float_mul_def)
  have pr: "py_round (8866461766385663 / 2 ^ 48) = 31" by (simp add: py_round_def)
  show ?thesis
    using fdiv ft fmul pr by (simp add: get_location_from_percentage_def)
qed

text \<open>
  Claim C10: when the stored total is unset or zero, the query pipeline computes the
  boundary as if the total were 100, so a current location above 100 yields the
  boundary 100.
\<close>

theorem C10_unknown_total_defaults_to_100:
  assumes "stored_total = None \<or> stored_total = Some 0"
  shows "query_location_boundary c stored_total = Inr (calculate_location_boundary c 100)
         \<and> (100 < c \<longrightarrow> query_location_boundary c stored_total = Inr 100)"
  using assms
  by (auto simp: query_location_boundary_def py_or_def calculate_location_boundary_def Let_def)

theorem C10_unknown_total_defaults_to_100_witness:
  "query_location_boundary 250 None = Inr 100 \<and> query_location_boundary 250 (Some 0) = Inr 100
   \<and> query_location_boundary 42 None = Inr 42"
  using C10_unknown_total_defaults_to_100 [of None 250]
        C10_unknown_total_defaults_to_100 [of "Some 0" 250]
        C10_unknown_total_defaults_to_100 [of None 42]
  by (simp add: calculate_location_boundary_def)

section \<open>Properties of the chunker\<close>

lemma html_advance_pos: "2 \<le> chunk_size \<Longrightarrow> 1 \<le> html_advance chunk_end chunk_overlap chunk_size"
  unfolding html_advance_def by linarith

lemma chunk_html_loop_terminates:
  assumes "2 \<le> chunk_size"
  shows "\<exists>ys. chunk_html_loop s chunk_size chunk_overlap min_chunk_size pos out = Some ys"
proof (induction "nat (int (length s) - pos)" arbitrary: pos out rule: less_induct)
  case less
  show ?case
  proof (cases "pos < int (length s)")
    case False
    then show ?thesis by (subst chunk_html_loop.simps) simp
  next
    case True
    define buffer where "buffer = py_slice s pos (min (pos + chunk_size * 3) (int (length s)))"
    define chunk_end where
      "chunk_end = choose_chunk_end buffer chunk_size (min chunk_size (int (length buffer)))"
    define advance where "advance = html_advance chunk_end chunk_overlap chunk_size"
    have "1 \<le> advance" unfolding advance_def using assms by (rule html_advance_pos)
    then have "nat (int (length s) - (pos + advance)) < nat (int (length s) - pos)"
      using True by linarith
    from less [OF this]
    obtain ys where "chunk_html_loop s chunk_size chunk_overlap min_chunk_size (pos + advance)
        (emit out (strip (py_slice_to buffer chunk_end)) min_chunk_size) = Some ys"
      by blast
    then show ?thesis
      using True assms
      by (subst chunk_html_loop.simps) (simp add: Let_def buffer_def chunk_end_def advance_def)
  qed
qed

lemma choose_chunk_end_lower:
  assumes "chunk_size div 2 < d"
  shows "chunk_size div 2 < choose_chunk_end buffer chunk_size d"
  using assms unfolding choose_chunk_end_def Let_def by auto

lemma chunk_plain_while_terminates:
  assumes "1 \<le> chunk_size" and "chunk_overlap div 2 \<le> chunk_size div 2"
  shows "\<exists>r. chunk_plain_while buffer chunk_size chunk_overlap min_chunk_size out = Some r"
proof (induction "length buffer" arbitrary: buffer out rule: less_induct)
  case less
  show ?case
  proof (cases "real (length buffer) \<ge> of_int chunk_size * 1.5")
    case False
    then show ?thesis by (subst chunk_plain_while.simps) simp
  next
    case True
    define chunk_end where "chunk_end = choose_chunk_end buffer chunk_size chunk_size"
    define k where "k = chunk_end - chunk_overlap div 2"
    have "chunk_size div 2 < chunk_size" using assms(1) by linarith
    then have "chunk_size div 2 < chunk_end"
      unfolding chunk_end_def by (rule choose_chunk_end_lower)
    then have k: "1 \<le> k" using assms(2) by (simp add: k_def)
    have "(1::real) \<le> of_int chunk_size" using assms(1) by simp
    then have "0 < real (length buffer)" using True by linarith
    then have n: "0 < length buffer" by simp
    have "length (py_slice_from buffer k) < length buffer"
      using k n by (simp add: py_slice_from_def py_index_def)
    from less [OF this]
    obtain r where "chunk_plain_while (py_slice_from buffer k) chunk_size chunk_overlap
        min_chunk_size (emit out (strip (py_slice_to buffer chunk_end)) min_chunk_size) = Some r"
      by blast
    then show ?thesis
      using True
      by (subst chunk_plain_while.simps) (simp add: Let_def chunk_end_def k_def)
  qed
qed

lemma chunk_plain_lines_terminates:
  assumes "1 \<le> chunk_size" and "chunk_overlap div 2 \<le> chunk_size div 2"
  shows "\<exists>ys. chunk_plain_lines lns buffer chunk_size chunk_overlap min_chunk_size out = Some ys"
proof (induction lns arbitrary: buffer out)
  case Nil
  show ?case by simp
next
  case (Cons line lns)
  obtain b' o' where "chunk_plain_while (buffer @ line) chunk_size chunk_overlap min_chunk_size out
      = Some (b', o')"
    using chunk_plain_while_terminates [OF assms] by (metis surj_pair)
  then show ?case using Cons [of b' o'] by simp
qed

definition C9_files :: chunk_files where
  "C9_files = \<lparr>extract_text_streamed = (\<lambda>p. ''ab''), read_lines = (\<lambda>p. None)\<rparr>"

text \<open>
  Claim C9, as stated, fails: with target chunk size 1 and overlap 2 the advance is
  \<open>max (1 - 1) 0 = 0\<close>, the window never moves and the chunker never returns.
\<close>

theorem C9_chunker_diverges_counterexample: "chunk_text_streamed C9_files ''ch.html'' 1 2 100 = None"
proof -
  have ce: "choose_chunk_end ''ab'' 1 1 = 1"
    by (simp add: choose_chunk_end_def rfind_def py_index_def Let_def)
  have "chunk_html_loop ''ab'' 1 2 100 0 [] = None"
  proof (rule ccontr)
    assume "chunk_html_loop ''ab'' 1 2 100 0 [] \<noteq> None"
    then obtain ys where r: "chunk_html_loop ''ab'' 1 2 100 0 [] = Some ys" by auto
    have "\<not> (''ab'' = ''ab'' \<and> (1::int) = 1 \<and> (2::int) = 2 \<and> (0::int) = 0)"
    proof (rule chunk_html_loop.raw_induct
        [where P = "\<lambda>s cs ov m pos out ys. \<not> (s = ''ab'' \<and> cs = 1 \<and> ov = 2 \<and> pos = 0)", OF _ r])
      fix f s cs ov m pos out ys
      assume IH: "\<And>s cs ov m pos out ys. f s cs ov m pos out = Some ys
                    \<Longrightarrow> \<not> (s = ''ab'' \<and> cs = 1 \<and> ov = 2 \<and> pos = 0)"
        and step: "(if pos < int (length s)
          then let end_buffer = min (pos + cs * 3) (int (length s));
                   buffer = py_slice s pos end_buffer;
                   chunk_end = choose_chunk_end buffer cs (min cs (int (length buffer)));
                   chunk = strip (py_slice_to buffer chunk_end)
               in if cs * 20 = 0 then Some (handler_yield (emit out chunk m) buffer m)
                  else f s cs ov m (pos + html_advance chunk_end ov cs) (emit out chunk m)
          else Some out) = Some ys"
      show "\<not> (s = ''ab'' \<and> cs = 1 \<and> ov = 2 \<and> pos = 0)"
      proof
        assume a: "s = ''ab'' \<and> cs = 1 \<and> ov = 2 \<and> pos = 0"
        from step a have "\<exists>o'. f ''ab'' 1 2 m 0 o' = Some ys"
          by (auto simp: Let_def py_slice_def py_index_def ce html_advance_def)
        then show False using IH by blast
      qed
    qed
    then show False by simp
  qed
  then show ?thesis
    by (simp add: chunk_text_streamed_def C9_files_def endswith_def)
qed

text \<open>
  Claim C9, amended: for an \<^verbatim>\<open>.html\<close> input the chunker terminates with a finite
  list of chunks for every overlap and minimum size whenever the target chunk size is at
  least 2, because each iteration then advances the window by at least 1; for any other
  (plain text) input it terminates whenever the target chunk size is at least 1 and
  \<open>overlap div 2 \<le> chunkSize div 2\<close>.
\<close>

theorem C9_chunker_terminates:
  "(endswith file_path ''.html'' \<and> 2 \<le> chunk_size \<longrightarrow>
      (\<exists>ys. chunk_text_streamed fs file_path chunk_size chunk_overlap min_chunk_size = Some ys))
   \<and> (2 \<le> chunk_size \<longrightarrow> 1 \<le> html_advance chunk_end chunk_overlap chunk_size)
   \<and> (\<not> endswith file_path ''.html'' \<and> 1 \<le> chunk_size \<and> chunk_overlap div 2 \<le> chunk_size div 2 \<longrightarrow>
      (\<exists>ys. chunk_text_streamed fs file_path chunk_size chunk_overlap min_chunk_size = Some ys))"
proof (intro conjI impI)
  assume "endswith file_path ''.html'' \<and> 2 \<le> chunk_size"
  then show "\<exists>ys. chunk_text_streamed fs file_path chunk_size chunk_overlap min_chunk_size = Some ys"
    using chunk_html_loop_terminates [of chunk_size]
    by (simp add: chunk_text_streamed_def)
next
  assume "2 \<le> chunk_size"
  then show "1 \<le> html_advance chunk_end chunk_overlap chunk_size"
    by (rule html_advance_pos)
next
  assume a: "\<not> endswith file_path ''.html'' \<and> 1 \<le> chunk_size \<and> chunk_overlap div 2 \<le> chunk_size div 2"
  then show "\<exists>ys. chunk_text_streamed fs file_path chunk_size chunk_overlap min_chunk_size = Some ys"
    using chunk_plain_lines_terminates [of chunk_size chunk_overlap]
    by (auto simp: chunk_text_streamed_def split: option.splits)
qed

theorem C9_chunker_terminates_witness:
  "(\<exists>ys. chunk_text_streamed C9_files ''ch.html'' 400 100 100 = Some ys)
   \<and> 1 \<le> html_advance 400 100 400
   \<and> (\<exists>ys. chunk_text_streamed C9_files ''ch.txt'' 400 100 100 = Some ys)"
  using C9_chunker_terminates [of "''ch.html''" 400 C9_files 100 100 400]
        C9_chunker_terminates [of "''ch.txt''" 400 C9_files 100 100 400]
  by (simp add: endswith_def)

section \<open>Properties of the chunk locations\<close>

text \<open>
  The position \<^verbatim>\<open>start + (end - start) / (n + 1) * (i + 1)\<close> as binary64 arithmetic
  computes it when nothing overflows: every operand and every result is rounded.
\<close>

definition interpolate :: "int \<Rightarrow> int \<Rightarrow> nat \<Rightarrow> nat \<Rightarrow> real" where
  "interpolate start_loc end_loc n i =
     fl64 (fl64 (of_int start_loc)
           + fl64 (fl64 (of_int (end_loc - start_loc) / of_int (int n + 1)) * fl64 (of_int (int i + 1))))"






text \<open>Within binary64's range nothing overflows.\<close>

lemma chunk_location_returns:
  assumes s: "\<bar>start_loc\<bar> \<le> 2 ^ 1000" and e: "\<bar>end_loc\<bar> \<le> 2 ^ 1000" and i: "i < 2 ^ 20"
  shows "chunk_location start_loc end_loc n i
           = Inr (clamp (py_int (interpolate start_loc end_loc n i)) start_loc end_loc)"
proof -
  have rs: "\<bar>real_of_int start_loc\<bar> \<le> 2 ^ 1000" using s
    by (metis of_int_abs of_int_le_iff of_int_numeral of_int_power)
  have re: "\<bar>real_of_int end_loc\<bar> \<le> 2 ^ 1000" using e
    by (metis of_int_abs of_int_le_iff of_int_numeral of_int_power)
  define x where "x = real_of_int (end_loc - start_loc) / of_int (int n + 1)"
  define seg where "seg = fl64 x"
  have "\<bar>real_of_int (end_loc - start_loc)\<bar> \<le> 2 ^ 1001" using rs re by simp
  moreover have "(1::real) \<le> of_int (int n + 1)" by simp
  ultimately have "\<bar>real_of_int (end_loc - start_loc)\<bar> / of_int (int n + 1) \<le> 2 ^ 1001 / 1"
    by (intro frac_le) simp_all
  then have x: "\<bar>x\<bar> \<le> 2 ^ 1001" by (simp add: x_def)
  then have "round64 x = Finite seg" unfolding seg_def by (rule round64_finite) simp
  then have a: "int_truediv (end_loc - start_loc) (int n + 1) = Inr seg"
    by (simp add: int_truediv_def x_def)
  have segb: "\<bar>seg\<bar> \<le> 2 ^ 1001" unfolding seg_def using x by (rule fl64_abs_le_pow2)
  have "\<bar>int i + 1\<bar> \<le> 2 ^ 53" using i by simp
  then have b: "float_of_int (int i + 1) = Inr (of_int (int i + 1))" by (rule float_of_int_small)
  have i1: "fl64 (of_int (int i + 1)) = of_int (int i + 1)"
    using float_of_int_Inr [OF b] by simp
  have "round64 (of_int start_loc) = Finite (fl64 (of_int start_loc))"
    using rs by (rule round64_finite) simp
  then have c: "float_of_int start_loc = Inr (fl64 (of_int start_loc))"
    by (simp add: float_of_int_def)
  have fsb: "\<bar>fl64 (of_int start_loc)\<bar> \<le> 2 ^ 1000" using rs by (rule fl64_abs_le_pow2)
  define p where "p = fl64 (seg * of_int (int i + 1))"
  have "\<bar>real_of_int (int i + 1)\<bar> \<le> 2 ^ 20" using i by simp
  then have "\<bar>seg\<bar> * \<bar>real_of_int (int i + 1)\<bar> \<le> 2 ^ 1001 * 2 ^ 20"
    using segb by (intro mult_mono) simp_all
  then have pb0: "\<bar>seg * of_int (int i + 1)\<bar> \<le> 2 ^ 1021"
    by (simp add: abs_mult flip: power_add)
  then have d: "float_mul seg (of_int (int i + 1)) = Finite p"
    unfolding p_def float_mul_def by (rule round64_finite) simp
  have pb: "\<bar>p\<bar> \<le> 2 ^ 1021" unfolding p_def using pb0 by (rule fl64_abs_le_pow2)
  have "(2::real) ^ 1000 \<le> 2 ^ 1021" by (rule power_increasing) simp_all
  then have "\<bar>fl64 (of_int start_loc) + p\<bar> \<le> 2 ^ 1021 + 2 ^ 1021" using fsb pb by linarith
  then have "\<bar>fl64 (of_int start_loc) + p\<bar> \<le> 2 ^ 1022" by simp
  then have f: "float_add (fl64 (of_int start_loc)) p
            = Finite (fl64 (fl64 (of_int start_loc) + p))"
    unfolding float_add_def by (rule round64_finite) simp
  have "interpolate start_loc end_loc n i = fl64 (fl64 (of_int start_loc) + p)"
    unfolding interpolate_def p_def seg_def x_def i1 ..
  then show ?thesis
    using a b c d f by (simp add: chunk_location_def clamp_def)
qed

lemma batch_locations_nth:
  "i < length batch \<Longrightarrow>
     batch_locations start_loc end_loc batch ! i = chunk_location start_loc end_loc (length batch) i"
  by (simp add: batch_locations_def enumerate_def)

lemma length_batch_locations: "length (batch_locations start_loc end_loc batch) = length batch"
  by (simp add: batch_locations_def enumerate_def)



lemma assigned_map_Inr: "assigned (map Inr ls) = ls"
  by (induction ls) simp_all



lemma batch_locations_returns:
  assumes "\<bar>start_loc\<bar> \<le> 2 ^ 1000" "\<bar>end_loc\<bar> \<le> 2 ^ 1000" "length batch < 2 ^ 20"
  shows "batch_locations start_loc end_loc batch
           = map Inr (map (\<lambda>i. clamp (py_int (interpolate start_loc end_loc (length batch) i))
                                 start_loc end_loc) [0 ..< length batch])"
proof (rule nth_equalityI)
  show "length (batch_locations start_loc end_loc batch)
        = length (map Inr (map (\<lambda>i. clamp (py_int (interpolate start_loc end_loc (length batch) i))
                                 start_loc end_loc) [0 ..< length batch]))"
    by (simp add: length_batch_locations)
next
  fix i assume "i < length (batch_locations start_loc end_loc batch)"
  then have i: "i < length batch" by (simp add: length_batch_locations)
  then have "i < 2 ^ 20" using assms(3) by linarith
  then show "batch_locations start_loc end_loc batch ! i
        = map Inr (map (\<lambda>i. clamp (py_int (interpolate start_loc end_loc (length batch) i))
                                 start_loc end_loc) [0 ..< length batch]) ! i"
    using i by (simp add: batch_locations_nth chunk_location_returns [OF assms(1,2)])
qed

text \<open>
  The ingestion loop assigns these locations: when the loop over the chunks of a batch
  runs through, the locations in the metadata it has built are the outcomes of
  \<^const>\<open>chunk_location\<close> for the chunks of the batch, in order.
\<close>

lemma process_batch_chunks_locations:
  "process_batch_chunks env bid bk ch n es st bm = (st', bm', True) \<Longrightarrow>
     map (\<lambda>m. Inr (location m)) bm'
       = map (\<lambda>m. Inr (location m)) bm
         @ map (\<lambda>(i, c). chunk_location (start_location ch) (end_location ch) n i) es"
proof (induction es arbitrary: st bm)
  case Nil
  then show ?case by simp
next
  case (Cons e rest)
  obtain i c where e: "e = (i, c)" by (cases e)
  from Cons.prems obtain loc where
    loc: "chunk_location (start_location ch) (end_location ch) n i = Inr loc"
    unfolding e by (cases "chunk_location (start_location ch) (end_location ch) n i") simp_all
  from Cons.prems loc obtain percentage where
    pct: "get_percentage_from_location loc (py_or (total_locations bk) 100) = Inr percentage"
    unfolding e
    by (cases "get_percentage_from_location loc (py_or (total_locations bk) 100)")
       (simp_all add: Let_def)
  define st1 where "st1 =
    (if loc - last_summary_location st \<ge> summary_interval
     then st\<lparr>points := create_location_summary env (points st) bid loc
                          (location_text_buffer st @ c @ '' '')
                          (ch_title ch) (py_or (total_locations bk) 100),
             location_text_buffer := [],
             last_summary_location := loc\<rparr>
     else st\<lparr>location_text_buffer := location_text_buffer st @ c @ '' ''\<rparr>)"
  define m where "m =
    \<lparr>chapter_id = Some (ch_id ch), chapter_title = ch_title ch,
     chapter_order = Some (ch_order ch), book_id = bid, location = loc,
     completion_percentage = percentage, text_field = c, content_type = ''content''\<rparr>"
  have m: "location m = loc" by (simp add: m_def)
  have r: "process_batch_chunks env bid bk ch n rest
             (st1\<lparr>all_chunks := all_chunks st1 @ [c], all_metadata := all_metadata st1 @ [m]\<rparr>)
             (bm @ [m]) = (st', bm', True)"
    using Cons.prems loc pct unfolding e by (simp add: Let_def st1_def m_def)
  show ?case using Cons.IH [OF r] m loc by (simp add: e)
qed

lemma process_batch_chunks_batch_locations:
  assumes "process_batch_chunks env bid bk ch (length batch) (enumerate batch) st []
             = (st', batch_metadata, True)"
  shows "map (\<lambda>m. Inr (location m)) batch_metadata
           = batch_locations (start_location ch) (end_location ch) batch"
  using process_batch_chunks_locations [OF assms] by (simp add: batch_locations_def)


lemma fl64_half_numeral: "(numeral w :: int) < 2 ^ 53 \<Longrightarrow> fl64 (numeral w / 2) = numeral w / 2"
  using fl64_div_pow2 [of "numeral w" 1] by simp









lemma batch_loop_full:
  "generator \<noteq> [] \<Longrightarrow> int (length (batch @ generator)) = batch_size \<Longrightarrow>
     batch_loop (generator @ rest) batch batch_size
       = (batch @ generator) # batch_loop rest [] batch_size"
proof (induction generator arbitrary: batch)
  case Nil
  then show ?case by simp
next
  case (Cons c g)
  show ?case
  proof (cases "g = []")
    case True
    then show ?thesis using Cons.prems by simp
  next
    case False
    then have "\<not> int (length (batch @ [c])) \<ge> batch_size"
      using Cons.prems(2) by (cases g) simp_all
    then show ?thesis
      using Cons.IH [of "batch @ [c]"] Cons.prems False by simp
  qed
qed

text \<open>
  A chapter of more than 120 chunks is outside the amended claim. There the code takes
  \<open>n\<close> and \<open>i\<close> from the batch at hand: a chapter of 121 chunks over the locations 0 to 121
  gets 120 for its 120th chunk and 60 for its 121st.
\<close>

lemma not_monotone_across_batches:
  "chapter_locations 0 121 (replicate 121 ''c'') ! 119 = 120
   \<and> chapter_locations 0 121 (replicate 121 ''c'') ! 120 = 60"
proof -
  have split: "replicate 121 ''c'' = replicate 120 ''c'' @ [''c'']"
    using replicate_add [of 120 1 "''c''"] by simp
  have "batch_chunks (replicate 121 ''c'') max_batch_size = [replicate 120 ''c'', [''c'']]"
    unfolding batch_chunks_def split max_batch_size_def
    using batch_loop_full [of "replicate 120 ''c''" "[]" 120 "[''c'']"]
    by simp
  then have eq: "chapter_locations 0 121 (replicate 121 ''c'')
      = assigned (batch_locations 0 121 (replicate 120 ''c'') @ batch_locations 0 121 [''c''])"
    by (simp add: chapter_locations_def)
  define A where "A = map (\<lambda>i. clamp (py_int (interpolate 0 121 120 i)) 0 121) [0 ..< 120]"
  define B where "B = map (\<lambda>i. clamp (py_int (interpolate 0 121 1 i)) 0 121) [0 ..< 1]"
  have a: "batch_locations 0 121 (replicate 120 ''c'') = map Inr A"
    unfolding A_def using batch_locations_returns [of 0 121 "replicate 120 ''c''"] by simp
  have b: "batch_locations 0 121 [''c''] = map Inr B"
    unfolding B_def using batch_locations_returns [of 0 121 "[''c'']"] by simp
  have "chapter_locations 0 121 (replicate 121 ''c'') = assigned (map Inr (A @ B))"
    unfolding eq a b by simp
  then have eq2: "chapter_locations 0 121 (replicate 121 ''c'') = A @ B"
    by (simp only: assigned_map_Inr)
  have lenA: "length A = 120" by (simp add: A_def)
  have i1: "interpolate 0 121 120 119 = 120"
    by (simp add: interpolate_def fl64_one fl64_numeral)
  have i2: "interpolate 0 121 (Suc 0) 0 = 121 / 2"
    by (simp add: interpolate_def fl64_one fl64_numeral fl64_half_numeral)
  have x: "A ! 119 = 120" by (simp add: A_def i1 py_int_def clamp_def)
  have y: "B ! 0 = 60" by (simp add: B_def i2 py_int_def clamp_def)
  show ?thesis unfolding eq2 using x y lenA by (simp add: nth_append)
qed

section \<open>Properties of the ingestion\<close>

lemma has_vectors_for_book_iff:
  "has_vectors_for_book coll bid \<longleftrightarrow> (\<exists>p \<in> set coll. book_id (payload p) = bid)"
proof -
  have "filter_must [MatchValue ''book_id'' bid] p \<longleftrightarrow> book_id (payload p) = bid" for p
    by (simp add: filter_must_def payload_keyword_def)
  then have "filter (filter_must [MatchValue ''book_id'' bid]) coll \<noteq> []
             \<longleftrightarrow> (\<exists>p \<in> set coll. book_id (payload p) = bid)"
    by (simp add: filter_empty_conv)
  moreover have "take 1 xs \<noteq> [] \<longleftrightarrow> xs \<noteq> []" for xs :: "point list"
    by (cases xs) simp_all
  ultimately show ?thesis
    by (simp add: has_vectors_for_book_def client_scroll_def)
qed

text \<open>
  Claim C5: if the vector store already holds a vector tagged with the book id, the
  ingestion returns 0 and leaves the store, that is the vectors and the keyword-index
  files, as it found it.
\<close>

theorem C5_ingestion_skips_ingested_book:
  assumes "\<exists>p \<in> set (collection s). book_id (payload p) = bid"
  shows "embed_book_content env s bid = Some (Inr 0, s)"
  using assms by (simp add: embed_book_content_def has_vectors_for_book_iff)

definition C5_env :: ingest_env where
  "C5_env =
     \<lparr>db_book = (\<lambda>b. None), db_chapters = (\<lambda>b. []), getsize = (\<lambda>p. None),
      chunk_fs = \<lparr>extract_text_streamed = (\<lambda>p. []), read_lines = (\<lambda>p. None)\<rparr>,
      generate_embeddings_batch = (\<lambda>b. None), generate_embedding = (\<lambda>t. None),
      generate_location_summary = (\<lambda>t l. []), uuid4 = (\<lambda>n. []),
      summary_uuid5 = (\<lambda>b l. []), word_tokenize_lower = (\<lambda>t. []),
      BM25Okapi = (\<lambda>c q. []), CHUNK_SIZE = 400, CHUNK_OVERLAP = 100\<rparr>"

definition C5_store :: store where
  "C5_store =
     \<lparr>collection =
        [\<lparr>point_id = Some ''p1'', vector = [1, 0],
          payload = \<lparr>chapter_id = Some ''c1'', chapter_title = ''One'', chapter_order = Some 1,
                     book_id = ''b1'', location = 1, completion_percentage = 1,
                     text_field = ''some text'', content_type = ''content''\<rparr>\<rparr>],
      cache = \<lparr>bm25_pkl = Map.empty, metadata_json = Map.empty\<rparr>\<rparr>"

theorem C5_ingestion_skips_ingested_book_witness:
  "(\<exists>p \<in> set (collection C5_store). book_id (payload p) = ''b1'')
   \<and> embed_book_content C5_env C5_store ''b1'' = Some (Inr 0, C5_store)"
proof -
  have h: "\<exists>p \<in> set (collection C5_store). book_id (payload p) = ''b1''"
    by (simp add: C5_store_def)
  show ?thesis
    using h C5_ingestion_skips_ingested_book [OF h, of C5_env] by simp
qed

section \<open>Properties of the keyword search\<close>

lemma in_set_enumerate: "(i, x) \<in> set (enumerate xs) \<longleftrightarrow> i < length xs \<and> xs ! i = x"
  by (auto simp: enumerate_def in_set_zip intro: exI [of _ i])

lemma set_sorted_desc: "set (sorted_desc key xs) = set xs"
  by (simp add: sorted_desc_def)

lemma mset_sorted_desc: "mset (sorted_desc key xs) = mset xs"
  by (simp add: sorted_desc_def)

lemma length_sorted_desc: "length (sorted_desc key xs) = length xs"
  by (simp add: sorted_desc_def)

lemma sorted_desc_descending: "sorted_wrt (\<lambda>x y. key x \<ge> key y) (sorted_desc key xs)"
proof -
  have "sorted (map key (sort_key key (rev xs)))" by (rule sorted_sort_key)
  then have "sorted_wrt (\<lambda>x y. key x \<le> key y) (sort_key key (rev xs))"
    by (simp add: sorted_map)
  then show ?thesis
    by (simp add: sorted_desc_def sorted_wrt_rev)
qed

lemma set_py_slice_to: "set (py_slice_to xs j) \<subseteq> set xs"
  by (simp add: py_slice_to_def set_take_subset)

lemma sorted_wrt_py_slice_to: "sorted_wrt P xs \<Longrightarrow> sorted_wrt P (py_slice_to xs j)"
  by (simp add: py_slice_to_def sorted_wrt_take)

lemma length_py_slice_to: "0 \<le> j \<Longrightarrow> int (length (py_slice_to xs j)) \<le> j"
  by (simp add: py_slice_to_def py_index_def)

lemma collect_results_sound:
  "collect_results es ml cs b = Some rs \<Longrightarrow> r \<in> set rs \<Longrightarrow>
     \<exists>i sc. (i, sc) \<in> set es \<and> i < length ml \<and> meta r = ml ! i \<and> score r = sc
            \<and> 0 < sc \<and> location (ml ! i) \<le> b"
proof (induction es ml cs b arbitrary: rs rule: collect_results.induct)
  case (1 ml cs b)
  then show ?case by simp
next
  case (2 i sc scores ml cs b)
  show ?case
  proof (cases "i < length ml \<and> location (ml ! i) \<le> b \<and> 0 < sc")
    case False
    then have "collect_results scores ml cs b = Some rs"
      using "2.prems"(1) by (auto split: if_splits)
    with 2 False show ?thesis by (auto split: if_splits)
  next
    case True
    then obtain rs' where rs': "collect_results scores ml cs b = Some rs'"
      and rs: "rs = \<lparr>result_id = None, score = sc, meta = ml ! i, search_method = None,
                     original_score = None, rerank_score = None\<rparr> # rs'"
      using "2.prems"(1) by (auto split: if_splits)
    show ?thesis
    proof (cases "r \<in> set rs'")
      case True
      with 2 rs' \<open>i < length ml \<and> location (ml ! i) \<le> b \<and> 0 < sc\<close> show ?thesis
        by (auto split: if_splits)
    next
      case False
      then have "r = \<lparr>result_id = None, score = sc, meta = ml ! i, search_method = None,
                     original_score = None, rerank_score = None\<rparr>"
        using "2.prems"(2) rs by simp
      then show ?thesis using True by auto
    qed
  qed
qed

lemma max_score_ge: "r \<in> set rs \<Longrightarrow> score r \<le> max_score rs"
  by (simp add: max_score_def)

lemma max_score_in: "rs \<noteq> [] \<Longrightarrow> \<exists>r \<in> set rs. max_score rs = score r"
proof -
  assume "rs \<noteq> []"
  then have "Max (set (map score rs)) \<in> set (map score rs)"
    by (intro Max_in) simp_all
  then show ?thesis by (auto simp: max_score_def)
qed

lemma rescale_eq: "rescale raw = map (\<lambda>r. r\<lparr>score := score r / max_score raw * 0.95\<rparr>) raw"
  by (simp add: rescale_def Let_def)

lemma rescale_bounds:
  assumes pos: "\<forall>r \<in> set raw. 0 < score r" and r: "r \<in> set (rescale raw)"
  shows "0 < score r \<and> score r \<le> 0.95"
proof -
  from r obtain r0 where r0: "r0 \<in> set raw" and eq: "r = r0\<lparr>score := score r0 / max_score raw * 0.95\<rparr>"
    by (auto simp: rescale_eq)
  have le: "score r0 \<le> max_score raw" using r0 by (rule max_score_ge)
  have p0: "0 < score r0" using pos r0 by blast
  then have m: "0 < max_score raw" using le by linarith
  have "score r0 / max_score raw \<le> 1" using le m by simp
  moreover have "0 < score r0 / max_score raw" using p0 m by simp
  ultimately show ?thesis by (simp add: eq)
qed

lemma rescale_sorted:
  assumes pos: "\<forall>r \<in> set raw. 0 < score r"
    and s: "sorted_wrt (\<lambda>x y. score x \<ge> score y) raw"
  shows "sorted_wrt (\<lambda>x y. score x \<ge> score y) (rescale raw)"
proof (cases "raw = []")
  case True
  then show ?thesis by (simp add: rescale_def)
next
  case False
  then obtain r where "r \<in> set raw" "max_score raw = score r" using max_score_in by blast
  then have m: "0 < max_score raw" using pos by simp
  have "sorted_wrt (\<lambda>x y. score x / max_score raw * 0.95 \<ge> score y / max_score raw * 0.95) raw"
    using s
  proof (rule sorted_wrt_mono_rel [rotated])
    fix x y assume "score y \<le> score x"
    then have "score y / max_score raw \<le> score x / max_score raw"
      using m by (simp add: divide_right_mono)
    then show "score y / max_score raw * 0.95 \<le> score x / max_score raw * 0.95"
      by simp
  qed
  then show ?thesis by (simp add: rescale_eq sorted_wrt_map)
qed

lemma bm25_search_raw:
  "\<exists>raw. bm25_search tok c q bid b limit = rescale raw
        \<and> (\<forall>r \<in> set raw.
              0 < score r \<and> location (meta r) \<le> b
              \<and> (\<exists>idx ml i. bm25_pkl c bid = Some idx \<and> metadata_json c bid = Some ml
                    \<and> i < length ml \<and> i < length (index_get_scores idx (tok q))
                    \<and> meta r = ml ! i \<and> score r = index_get_scores idx (tok q) ! i))
        \<and> sorted_wrt (\<lambda>x y. score x \<ge> score y) raw
        \<and> (0 \<le> limit \<longrightarrow> int (length raw) \<le> limit)"
proof (cases "\<exists>idx ml rs. bm25_pkl c bid = Some idx \<and> metadata_json c bid = Some ml
      \<and> collect_results (enumerate (index_get_scores idx (tok q))) ml (chunks idx) b = Some rs")
  case False
  then have "bm25_search tok c q bid b limit = []"
    by (auto simp: bm25_search_def load_bm25_index_def Let_def split: option.splits)
  then have "bm25_search tok c q bid b limit = rescale []" by (simp add: rescale_def)
  then show ?thesis by (intro exI [of _ "[]"]) simp
next
  case True
  then obtain idx ml rs where idx: "bm25_pkl c bid = Some idx"
    and ml: "metadata_json c bid = Some ml"
    and rs: "collect_results (enumerate (index_get_scores idx (tok q))) ml (chunks idx) b = Some rs"
    by blast
  define raw where "raw = py_slice_to (sorted_desc score rs) limit"
  have eq: "bm25_search tok c q bid b limit = rescale raw"
    using idx ml rs by (simp add: bm25_search_def load_bm25_index_def Let_def raw_def)
  have sub: "set raw \<subseteq> set rs"
    unfolding raw_def using set_py_slice_to [of "sorted_desc score rs" limit]
    by (simp add: set_sorted_desc)
  have each: "0 < score r \<and> location (meta r) \<le> b
            \<and> (\<exists>idx ml i. bm25_pkl c bid = Some idx \<and> metadata_json c bid = Some ml
                  \<and> i < length ml \<and> i < length (index_get_scores idx (tok q))
                  \<and> meta r = ml ! i \<and> score r = index_get_scores idx (tok q) ! i)"
    if "r \<in> set raw" for r
  proof -
    from that sub have "r \<in> set rs" by blast
    from collect_results_sound [OF rs this]
    obtain i sc where "(i, sc) \<in> set (enumerate (index_get_scores idx (tok q)))"
      "i < length ml" "meta r = ml ! i" "score r = sc" "0 < sc" "location (ml ! i) \<le> b"
      by blast
    then show ?thesis using idx ml by (auto simp: in_set_enumerate)
  qed
  have srt: "sorted_wrt (\<lambda>x y. score x \<ge> score y) raw"
    unfolding raw_def by (intro sorted_wrt_py_slice_to sorted_desc_descending)
  have len: "0 \<le> limit \<longrightarrow> int (length raw) \<le> limit"
    unfolding raw_def by (simp add: length_py_slice_to)
  show ?thesis using eq each srt len by blast
qed

lemma bm25_search_within_boundary:
  "r \<in> set (bm25_search tok c q bid b limit) \<Longrightarrow> location (meta r) \<le> b"
proof -
  assume r: "r \<in> set (bm25_search tok c q bid b limit)"
  obtain raw where eq: "bm25_search tok c q bid b limit = rescale raw"
    and each: "\<forall>r \<in> set raw. 0 < score r \<and> location (meta r) \<le> b"
    using bm25_search_raw [of tok c q bid b limit] by blast
  from r obtain r0 where "r0 \<in> set raw" "meta r = meta r0"
    unfolding eq by (auto simp: rescale_eq)
  then show ?thesis using each by auto
qed

lemma bm25_search_positive:
  "r \<in> set (bm25_search tok c q bid b limit) \<Longrightarrow> 0 < score r"
proof -
  assume r: "r \<in> set (bm25_search tok c q bid b limit)"
  obtain raw where eq: "bm25_search tok c q bid b limit = rescale raw"
    and each: "\<forall>r \<in> set raw. 0 < score r"
    using bm25_search_raw [of tok c q bid b limit] by blast
  show ?thesis using rescale_bounds [OF each] r unfolding eq by blast
qed

text \<open>
  The corpus entries that qualify for a search, in corpus order: the entries that have
  metadata, a metadata location within the boundary and a strictly positive raw score,
  each as the result dictionary the search builds for it.
\<close>

definition qualifies :: "metadata list \<Rightarrow> int \<Rightarrow> nat \<times> real \<Rightarrow> bool" where
  "qualifies metadata_list location_boundary =
     (\<lambda>(i, sc). i < length metadata_list
                \<and> location (metadata_list ! i) \<le> location_boundary \<and> 0 < sc)"

definition entry :: "metadata list \<Rightarrow> nat \<times> real \<Rightarrow> search_result" where
  "entry metadata_list =
     (\<lambda>(i, sc). \<lparr>result_id = None, score = sc, meta = metadata_list ! i,
                  search_method = None, original_score = None, rerank_score = None\<rparr>)"

definition qualifying_entries :: "real list \<Rightarrow> metadata list \<Rightarrow> int \<Rightarrow> search_result list" where
  "qualifying_entries scores metadata_list location_boundary =
     map (entry metadata_list)
       (filter (qualifies metadata_list location_boundary) (enumerate scores))"

lemma collect_results_eq:
  "collect_results es ml cs b
     = (if \<forall>(i, sc) \<in> set (filter (qualifies ml b) es). i < length cs
        then Some (map (entry ml) (filter (qualifies ml b) es)) else None)"
proof (induction es)
  case Nil
  then show ?case by simp
next
  case (Cons e scores)
  obtain i sc where e: "e = (i, sc)" by (cases e)
  show ?case
  proof (cases "qualifies ml b e")
    case False
    then have A: "collect_results (e # scores) ml cs b = collect_results scores ml cs b"
      unfolding e by (auto simp: qualifies_def)
    have B: "filter (qualifies ml b) (e # scores) = filter (qualifies ml b) scores"
      using False by simp
    show ?thesis unfolding A B by (rule Cons.IH)
  next
    case True
    then have q: "i < length ml" "location (ml ! i) \<le> b" "0 < sc"
      unfolding e by (simp_all add: qualifies_def)
    have B: "filter (qualifies ml b) (e # scores) = e # filter (qualifies ml b) scores"
      using True by simp
    show ?thesis
    proof (cases "i < length cs")
      case False
      then have A: "collect_results (e # scores) ml cs b = None" unfolding e using q by simp
      show ?thesis unfolding A B using False by (auto simp: e)
    next
      case c: True
      have A: "collect_results (e # scores) ml cs b
          = map_option ((#) (entry ml e)) (collect_results scores ml cs b)"
        unfolding e using q c by (simp add: entry_def)
      show ?thesis unfolding A B Cons.IH using c by (auto simp: e)
    qed
  qed
qed

lemma py_slice_to_nonneg: "0 \<le> j \<Longrightarrow> py_slice_to xs j = take (nat j) xs"
  by (simp add: py_slice_to_def py_index_def min_def)

lemma bm25_search_complete:
  assumes idx: "bm25_pkl c bid = Some idx" and ml: "metadata_json c bid = Some ml"
    and cover: "\<forall>(i, sc) \<in> set (enumerate (index_get_scores idx (tok q))).
                  qualifies ml b (i, sc) \<longrightarrow> i < length (chunks idx)"
  shows "bm25_search tok c q bid b limit
         = rescale (py_slice_to (sorted_desc score
                      (qualifying_entries (index_get_scores idx (tok q)) ml b)) limit)"
proof -
  have "\<forall>(i, sc) \<in> set (filter (qualifies ml b) (enumerate (index_get_scores idx (tok q)))).
          i < length (chunks idx)"
    using cover by auto
  then have "collect_results (enumerate (index_get_scores idx (tok q))) ml (chunks idx) b
      = Some (qualifying_entries (index_get_scores idx (tok q)) ml b)"
    unfolding collect_results_eq qualifying_entries_def by simp
  then show ?thesis using idx ml by (simp add: bm25_search_def load_bm25_index_def Let_def)
qed

lemma bm25_search_index_error:
  assumes idx: "bm25_pkl c bid = Some idx" and ml: "metadata_json c bid = Some ml"
    and miss: "\<not> (\<forall>(i, sc) \<in> set (enumerate (index_get_scores idx (tok q))).
                  qualifies ml b (i, sc) \<longrightarrow> i < length (chunks idx))"
  shows "bm25_search tok c q bid b limit = []"
proof -
  have "\<not> (\<forall>(i, sc) \<in> set (filter (qualifies ml b) (enumerate (index_get_scores idx (tok q)))).
          i < length (chunks idx))"
    using miss by auto
  then have "collect_results (enumerate (index_get_scores idx (tok q))) ml (chunks idx) b = None"
    unfolding collect_results_eq by simp
  then show ?thesis using idx ml by (simp add: bm25_search_def load_bm25_index_def Let_def)
qed

text \<open>A small index: four chunks with raw scores 2, 0, 5, 3 at locations 1, 2, 10, 3.\<close>

definition example_meta :: "string \<Rightarrow> int \<Rightarrow> string \<Rightarrow> string \<Rightarrow> metadata" where
  "example_meta bid loc txt ctype =
     \<lparr>chapter_id = Some ''c1'', chapter_title = ''One'', chapter_order = Some 1,
      book_id = bid, location = loc, completion_percentage = of_int loc,
      text_field = txt, content_type = ctype\<rparr>"

definition example_cache :: bm25_cache where
  "example_cache =
     \<lparr>bm25_pkl = [''b1'' \<mapsto>
        \<lparr>index_get_scores = (\<lambda>q. [2, 0, 5, 3]),
         chunks = [''alpha'', ''beta'', ''gamma'', ''delta''],
         tokenized_chunks = [[''alpha''], [''beta''], [''gamma''], [''delta'']]\<rparr>],
      metadata_json = [''b1'' \<mapsto>
        [example_meta ''b1'' 1 ''alpha'' ''content'', example_meta ''b1'' 2 ''beta'' ''content'',
         example_meta ''b1'' 10 ''gamma'' ''content'', example_meta ''b1'' 3 ''delta'' ''content'']]\<rparr>"

lemma example_bm25_search:
  "bm25_search (\<lambda>q. [q]) example_cache ''q'' ''b1'' 5 2 =
     [\<lparr>result_id = None, score = 19 / 20, meta = example_meta ''b1'' 3 ''delta'' ''content'',
       search_method = None, original_score = None, rerank_score = None\<rparr>,
      \<lparr>result_id = None, score = 19 / 30, meta = example_meta ''b1'' 1 ''alpha'' ''content'',
       search_method = None, original_score = None, rerank_score = None\<rparr>]"
  by (simp add: bm25_search_def load_bm25_index_def example_cache_def enumerate_def
      example_meta_def sorted_desc_def py_slice_to_def py_index_def rescale_def max_score_def
      upt_rec)

definition example_index :: index_data where
  "example_index =
     \<lparr>index_get_scores = (\<lambda>q. [2, 0, 5, 3]),
      chunks = [''alpha'', ''beta'', ''gamma'', ''delta''],
      tokenized_chunks = [[''alpha''], [''beta''], [''gamma''], [''delta'']]\<rparr>"

definition example_metadata :: "metadata list" where
  "example_metadata =
     [example_meta ''b1'' 1 ''alpha'' ''content'', example_meta ''b1'' 2 ''beta'' ''content'',
      example_meta ''b1'' 10 ''gamma'' ''content'', example_meta ''b1'' 3 ''delta'' ''content'']"

lemma example_cache_files:
  "bm25_pkl example_cache ''b1'' = Some example_index"
  "metadata_json example_cache ''b1'' = Some example_metadata"
  by (simp_all add: example_cache_def example_index_def example_metadata_def)

text \<open>The same index with a chunk list that holds the first chunk only.\<close>

definition short_cache :: bm25_cache where
  "short_cache =
     \<lparr>bm25_pkl = [''b1'' \<mapsto> example_index\<lparr>chunks := [''alpha'']\<rparr>],
      metadata_json = [''b1'' \<mapsto> example_metadata]\<rparr>"

lemma example_qualifying:
  "map (\<lambda>r. (text_field (meta r), score r)) (qualifying_entries [2, 0, 5, 3] example_metadata 50)
     = [(''alpha'', 2), (''gamma'', 5), (''delta'', 3)]"
  by (simp add: qualifying_entries_def qualifies_def entry_def enumerate_def example_metadata_def
      example_meta_def upt_rec)

lemma example_top:
  "map (\<lambda>r. (text_field (meta r), score r)) (bm25_search (\<lambda>q. [q]) example_cache ''q'' ''b1'' 50 1)
     = [(''gamma'', 19 / 20)]"
  by (simp add: bm25_search_def load_bm25_index_def example_cache_def enumerate_def
      example_meta_def sorted_desc_def py_slice_to_def py_index_def rescale_def max_score_def
      upt_rec)

lemma example_negative_limit:
  "map (\<lambda>r. text_field (meta r)) (bm25_search (\<lambda>q. [q]) example_cache ''q'' ''b1'' 50 (- 1))
     = [''gamma'', ''delta'']"
  by (simp add: bm25_search_def load_bm25_index_def example_cache_def enumerate_def
      example_meta_def sorted_desc_def py_slice_to_def py_index_def rescale_def max_score_def
      upt_rec)

lemma example_index_error:
  "bm25_search (\<lambda>q. [q]) short_cache ''q'' ''b1'' 50 2 = []"
  by (simp add: bm25_search_def load_bm25_index_def short_cache_def example_index_def
      example_metadata_def enumerate_def example_meta_def upt_rec)

text \<open>
  Claim C3, as stated for every limit and every index, fails. The cut is Python's
  \<^verbatim>\<open>results[:limit]\<close>, which for a negative limit drops the last \<open>\<bar>limit\<bar>\<close> entries
  instead of keeping at most \<open>limit\<close>: on the example index with boundary 50 and limit
  \<open>-1\<close> the search returns two entries. And when the index file holds fewer chunk texts
  than scores, the lookup of the text of a qualifying entry raises and the handler returns
  the empty list, although three entries qualify.
\<close>

theorem C3_limit_counterexample:
  "map (\<lambda>r. text_field (meta r)) (bm25_search (\<lambda>q. [q]) example_cache ''q'' ''b1'' 50 (- 1))
     = [''gamma'', ''delta'']
   \<and> \<not> int (length (bm25_search (\<lambda>q. [q]) example_cache ''q'' ''b1'' 50 (- 1))) \<le> - 1
   \<and> bm25_search (\<lambda>q. [q]) short_cache ''q'' ''b1'' 50 2 = []
   \<and> map (\<lambda>r. (text_field (meta r), score r)) (qualifying_entries [2, 0, 5, 3] example_metadata 50)
     = [(''alpha'', 2), (''gamma'', 5), (''delta'', 3)]"
  using example_negative_limit example_index_error example_qualifying
    arg_cong [OF example_negative_limit, of length]
  by simp

text \<open>
  Claim C3, amended: the keyword search returns the empty list when the index file or the
  metadata file of the book is absent. Otherwise let \<open>Q\<close> be the qualifying entries: the
  corpus entries, in corpus order, that have metadata, a strictly positive raw score and a
  metadata location within the boundary. When the index holds a chunk text for every
  entry of \<open>Q\<close>, the search returns \<open>raw = S[:limit]\<close>, where \<open>S\<close> is \<open>Q\<close> sorted by score
  descending (entries of equal score in corpus order), which for \<open>limit \<ge> 0\<close> is the first
  \<open>limit\<close> entries of \<open>S\<close>, each score divided by the maximum raw score of \<open>raw\<close> and
  multiplied by 0.95. When some entry of \<open>Q\<close> has no chunk text, the search returns the
  empty list. In every case the returned entries have a location within the boundary and
  a score in \<open>(0, 0.95]\<close>, they are sorted by score descending, and they are at most
  \<open>limit\<close> when \<open>limit \<ge> 0\<close>.
\<close>

theorem C3_bm25_search:
  "((bm25_pkl c bid = None \<or> metadata_json c bid = None) \<longrightarrow>
       bm25_search tok c q bid b limit = [])
   \<and> (bm25_pkl c bid = Some idx \<and> metadata_json c bid = Some ml
        \<and> (\<forall>(i, sc) \<in> set (enumerate (index_get_scores idx (tok q))).
              qualifies ml b (i, sc) \<longrightarrow> i < length (chunks idx)) \<longrightarrow>
        (\<exists>S raw. mset S = mset (qualifying_entries (index_get_scores idx (tok q)) ml b)
           \<and> sorted_wrt (\<lambda>x y. score x \<ge> score y) S
           \<and> S = sorted_desc score (qualifying_entries (index_get_scores idx (tok q)) ml b)
           \<and> raw = py_slice_to S limit
           \<and> (0 \<le> limit \<longrightarrow> raw = take (nat limit) S)
           \<and> bm25_search tok c q bid b limit
               = map (\<lambda>r. r\<lparr>score := score r / max_score raw * 0.95\<rparr>) raw))
   \<and> (bm25_pkl c bid = Some idx \<and> metadata_json c bid = Some ml
        \<and> \<not> (\<forall>(i, sc) \<in> set (enumerate (index_get_scores idx (tok q))).
                qualifies ml b (i, sc) \<longrightarrow> i < length (chunks idx)) \<longrightarrow>
        bm25_search tok c q bid b limit = [])
   \<and> (\<forall>r \<in> set (qualifying_entries scores ml b).
         0 < score r \<and> location (meta r) \<le> b
         \<and> (\<exists>i < length scores. i < length ml \<and> score r = scores ! i \<and> meta r = ml ! i))
   \<and> (\<forall>i < length scores. i < length ml \<and> location (ml ! i) \<le> b \<and> 0 < scores ! i \<longrightarrow>
         \<lparr>result_id = None, score = scores ! i, meta = ml ! i, search_method = None,
          original_score = None, rerank_score = None\<rparr> \<in> set (qualifying_entries scores ml b))
   \<and> (\<forall>r \<in> set (bm25_search tok c q bid b limit).
         0 < score r \<and> score r \<le> 0.95 \<and> location (meta r) \<le> b)
   \<and> sorted_wrt (\<lambda>x y. score x \<ge> score y) (bm25_search tok c q bid b limit)
   \<and> (0 \<le> limit \<longrightarrow> int (length (bm25_search tok c q bid b limit)) \<le> limit)"
proof -
  have absent: "(bm25_pkl c bid = None \<or> metadata_json c bid = None) \<longrightarrow>
       bm25_search tok c q bid b limit = []"
    by (auto simp: bm25_search_def load_bm25_index_def split: option.splits)
  have complete: "bm25_pkl c bid = Some idx \<and> metadata_json c bid = Some ml
        \<and> (\<forall>(i, sc) \<in> set (enumerate (index_get_scores idx (tok q))).
              qualifies ml b (i, sc) \<longrightarrow> i < length (chunks idx)) \<longrightarrow>
        (\<exists>S raw. mset S = mset (qualifying_entries (index_get_scores idx (tok q)) ml b)
           \<and> sorted_wrt (\<lambda>x y. score x \<ge> score y) S
           \<and> S = sorted_desc score (qualifying_entries (index_get_scores idx (tok q)) ml b)
           \<and> raw = py_slice_to S limit
           \<and> (0 \<le> limit \<longrightarrow> raw = take (nat limit) S)
           \<and> bm25_search tok c q bid b limit
               = map (\<lambda>r. r\<lparr>score := score r / max_score raw * 0.95\<rparr>) raw)"
  proof
    assume a: "bm25_pkl c bid = Some idx \<and> metadata_json c bid = Some ml
        \<and> (\<forall>(i, sc) \<in> set (enumerate (index_get_scores idx (tok q))).
              qualifies ml b (i, sc) \<longrightarrow> i < length (chunks idx))"
    define S where "S = sorted_desc score (qualifying_entries (index_get_scores idx (tok q)) ml b)"
    have "bm25_search tok c q bid b limit = rescale (py_slice_to S limit)"
      unfolding S_def using a by (intro bm25_search_complete) simp_all
    then have "bm25_search tok c q bid b limit
        = map (\<lambda>r. r\<lparr>score := score r / max_score (py_slice_to S limit) * 0.95\<rparr>)
            (py_slice_to S limit)"
      by (simp only: rescale_eq)
    moreover have "mset S = mset (qualifying_entries (index_get_scores idx (tok q)) ml b)"
      unfolding S_def by (rule mset_sorted_desc)
    moreover have "sorted_wrt (\<lambda>x y. score x \<ge> score y) S"
      unfolding S_def by (rule sorted_desc_descending)
    moreover have "0 \<le> limit \<longrightarrow> py_slice_to S limit = take (nat limit) S"
      by (simp add: py_slice_to_nonneg)
    ultimately show "\<exists>S raw. mset S = mset (qualifying_entries (index_get_scores idx (tok q)) ml b)
           \<and> sorted_wrt (\<lambda>x y. score x \<ge> score y) S
           \<and> S = sorted_desc score (qualifying_entries (index_get_scores idx (tok q)) ml b)
           \<and> raw = py_slice_to S limit
           \<and> (0 \<le> limit \<longrightarrow> raw = take (nat limit) S)
           \<and> bm25_search tok c q bid b limit
               = map (\<lambda>r. r\<lparr>score := score r / max_score raw * 0.95\<rparr>) raw"
      using S_def by blast
  qed
  have error: "bm25_pkl c bid = Some idx \<and> metadata_json c bid = Some ml
        \<and> \<not> (\<forall>(i, sc) \<in> set (enumerate (index_get_scores idx (tok q))).
                qualifies ml b (i, sc) \<longrightarrow> i < length (chunks idx)) \<longrightarrow>
        bm25_search tok c q bid b limit = []"
    using bm25_search_index_error [of c bid idx ml tok q b limit] by blast
  have q_sound: "\<forall>r \<in> set (qualifying_entries scores ml b).
         0 < score r \<and> location (meta r) \<le> b
         \<and> (\<exists>i < length scores. i < length ml \<and> score r = scores ! i \<and> meta r = ml ! i)"
    by (auto simp: qualifying_entries_def qualifies_def entry_def in_set_enumerate)
  have q_complete: "\<forall>i < length scores.
         i < length ml \<and> location (ml ! i) \<le> b \<and> 0 < scores ! i \<longrightarrow>
         \<lparr>result_id = None, score = scores ! i, meta = ml ! i, search_method = None,
          original_score = None, rerank_score = None\<rparr> \<in> set (qualifying_entries scores ml b)"
  proof (intro allI impI)
    fix i assume i: "i < length scores"
      and a: "i < length ml \<and> location (ml ! i) \<le> b \<and> 0 < scores ! i"
    have "(i, scores ! i) \<in> set (filter (qualifies ml b) (enumerate scores))"
      using i a by (simp add: in_set_enumerate qualifies_def)
    then have "entry ml (i, scores ! i) \<in> set (qualifying_entries scores ml b)"
      unfolding qualifying_entries_def set_map by (rule imageI)
    then show "\<lparr>result_id = None, score = scores ! i, meta = ml ! i, search_method = None,
          original_score = None, rerank_score = None\<rparr> \<in> set (qualifying_entries scores ml b)"
      by (simp add: entry_def)
  qed
  obtain raw where eq: "bm25_search tok c q bid b limit = rescale raw"
    and each: "\<forall>r \<in> set raw. 0 < score r \<and> location (meta r) \<le> b"
    and srt: "sorted_wrt (\<lambda>x y. score x \<ge> score y) raw"
    and len: "0 \<le> limit \<longrightarrow> int (length raw) \<le> limit"
    using bm25_search_raw [of tok c q bid b limit] by blast
  have pos: "\<forall>r \<in> set raw. 0 < score r" using each by blast
  have bounds: "\<forall>r \<in> set (bm25_search tok c q bid b limit).
         0 < score r \<and> score r \<le> 0.95 \<and> location (meta r) \<le> b"
  proof
    fix r assume r: "r \<in> set (bm25_search tok c q bid b limit)"
    then have "0 < score r \<and> score r \<le> 0.95"
      unfolding eq using rescale_bounds [OF pos] by blast
    moreover from r obtain r0 where "r0 \<in> set raw" "meta r = meta r0"
      unfolding eq by (auto simp: rescale_eq)
    ultimately show "0 < score r \<and> score r \<le> 0.95 \<and> location (meta r) \<le> b"
      using each by auto
  qed
  have srt': "sorted_wrt (\<lambda>x y. score x \<ge> score y) (bm25_search tok c q bid b limit)"
    unfolding eq using pos srt by (rule rescale_sorted)
  have len': "0 \<le> limit \<longrightarrow> int (length (bm25_search tok c q bid b limit)) \<le> limit"
    unfolding eq using len by (simp add: rescale_eq)
  show ?thesis using absent complete error q_sound q_complete bounds srt' len' by blast
qed

theorem C3_bm25_search_witness:
  "bm25_search (\<lambda>q. [q]) example_cache ''q'' ''zz'' 50 1 = []
   \<and> bm25_pkl example_cache ''b1'' = Some example_index
   \<and> metadata_json example_cache ''b1'' = Some example_metadata
   \<and> list_all (\<lambda>(i, sc). i < length (chunks example_index))
        (enumerate (index_get_scores example_index [''q'']))
   \<and> map (\<lambda>r. (text_field (meta r), score r))
        (qualifying_entries (index_get_scores example_index [''q'']) example_metadata 50)
       = [(''alpha'', 2), (''gamma'', 5), (''delta'', 3)]
   \<and> map (\<lambda>r. (text_field (meta r), score r)) (bm25_search (\<lambda>q. [q]) example_cache ''q'' ''b1'' 50 1)
       = [(''gamma'', 19 / 20)]
   \<and> bm25_search (\<lambda>q. [q]) example_cache ''q'' ''b1'' 50 1
       = map (\<lambda>r. r\<lparr>score := score r / max_score
                 (take 1 (sorted_desc score
                    (qualifying_entries (index_get_scores example_index [''q'']) example_metadata 50)))
                 * 0.95\<rparr>)
           (take 1 (sorted_desc score
              (qualifying_entries (index_get_scores example_index [''q'']) example_metadata 50)))
   \<and> int (length (bm25_search (\<lambda>q. [q]) example_cache ''q'' ''b1'' 50 1)) \<le> 1"
proof -
  have cover: "\<forall>(i, sc) \<in> set (enumerate (index_get_scores example_index [''q''])).
      qualifies example_metadata 50 (i, sc) \<longrightarrow> i < length (chunks example_index)"
    by (simp add: example_index_def enumerate_def upt_rec)
  have sc: "index_get_scores example_index [''q''] = [2, 0, 5, 3]"
    by (simp add: example_index_def)
  have all: "list_all (\<lambda>(i, sc). i < length (chunks example_index))
      (enumerate (index_get_scores example_index [''q'']))"
    by (simp add: example_index_def enumerate_def upt_rec)
  show ?thesis
    using C3_bm25_search [of example_cache "''zz''" "\<lambda>q. [q]" "''q''" 50 1 example_index
            example_metadata "[]"]
          C3_bm25_search [of example_cache "''b1''" "\<lambda>q. [q]" "''q''" 50 1 example_index
            example_metadata "[]"]
          cover all example_cache_files example_qualifying example_top
    by (simp add: sc) (simp add: example_cache_def)
qed

section \<open>Properties of the retrieval\<close>

lemma client_search_sound:
  assumes "(p, sc) \<in> set (client_search sim coll qv conds top_k thr)"
  shows "p \<in> set coll \<and> filter_must conds p \<and> sc = sim qv (vector p) \<and> thr \<le> sc"
proof -
  from assms have "(p, sc) \<in> set (sorted_desc snd
          (filter (\<lambda>(p, s). s \<ge> thr)
             (map (\<lambda>p. (p, sim qv (vector p))) (filter (filter_must conds) coll))))"
    unfolding client_search_def by (rule in_set_takeD)
  then show ?thesis by (auto simp: set_sorted_desc)
qed

lemma search_vectors_sound:
  assumes "r \<in> set (search_vectors sim coll qv bid top_k thr lb fm)"
  shows "\<exists>p \<in> set coll. meta r = payload p \<and> score r = sim qv (vector p) \<and> thr \<le> score r
           \<and> book_id (payload p) = bid
           \<and> (\<forall>b. lb = Some b \<longrightarrow> location (payload p) \<le> b)
           \<and> (\<forall>(k, v) \<in> set fm. payload_keyword (payload p) k = Some v)"
proof -
  define conds where "conds = [MatchValue ''book_id'' bid]
            @ (case lb of None \<Rightarrow> [] | Some b \<Rightarrow> [RangeLte ''location'' b])
            @ map (\<lambda>(key, v). MatchValue key v) fm"
  from assms obtain p sc where in_cs: "(p, sc) \<in> set (client_search sim coll qv conds (nat top_k) thr)"
    and r: "meta r = payload p" "score r = sc"
    by (auto simp: search_vectors_def Let_def conds_def)
  from client_search_sound [OF in_cs]
  have p: "p \<in> set coll" and fm: "filter_must conds p" and sc: "sc = sim qv (vector p)" "thr \<le> sc"
    by simp_all
  have all: "\<forall>c \<in> set conds. condition_holds (payload p) c"
    using fm by (simp add: filter_must_def list_all_iff)
  have "condition_holds (payload p) (MatchValue ''book_id'' bid)"
    using all by (simp add: conds_def)
  then have b1: "book_id (payload p) = bid" by (simp add: payload_keyword_def)
  have b2: "location (payload p) \<le> b" if "lb = Some b" for b
  proof -
    have "condition_holds (payload p) (RangeLte ''location'' b)"
      using all that by (simp add: conds_def)
    then show ?thesis by (simp add: payload_integer_def)
  qed
  have b3: "payload_keyword (payload p) k = Some v" if "(k, v) \<in> set fm" for k v
  proof -
    have "MatchValue k v \<in> set conds" using that by (force simp: conds_def)
    then have "condition_holds (payload p) (MatchValue k v)" using all by blast
    then show ?thesis by simp
  qed
  show ?thesis using p r sc b1 b2 b3 by (intro bexI [of _ p]) auto
qed

lemma search_vectors_within_boundary:
  "r \<in> set (search_vectors sim coll qv bid top_k thr (Some b) fm) \<Longrightarrow> location (meta r) \<le> b"
  using search_vectors_sound [of r sim coll qv bid top_k thr "Some b" fm] by auto

lemma tag_sound: "r \<in> set (tag m rs) \<Longrightarrow> \<exists>r0 \<in> set rs. meta r = meta r0 \<and> score r = score r0
    \<and> search_method r = Some m"
  by (auto simp: tag_def)

lemma retrieve_within_boundary:
  assumes "r \<in> set (retrieve env s bid q qe ees b)"
  shows "location (meta r) \<le> b"
proof -
  from assms consider
      (kw) "r \<in> set (tag ''bm25'' (bm25_search (tokenize_query env) (cache s) q bid b BM25_RESULTS_LIMIT))"
    | (vec) "r \<in> set (tag ''vector'' (search_vectors (similarity_of env) (collection s) qe bid 15 0.6 (Some b) []))"
    | (sm) "r \<in> set (tag ''summary'' (search_vectors (similarity_of env) (collection s) qe bid 5 0.65
                (Some b) [(''content_type'', ''summary'')]))"
    | (ex) e where "e \<in> set ees"
        "r \<in> set (tag ''expanded_vector'' (search_vectors (similarity_of env) (collection s) e bid 5 0.5 (Some b) []))"
    unfolding retrieve_def by auto
  then show ?thesis
  proof cases
    case kw
    then show ?thesis using tag_sound bm25_search_within_boundary by metis
  next
    case vec
    then show ?thesis using tag_sound search_vectors_within_boundary by metis
  next
    case sm
    then show ?thesis using tag_sound search_vectors_within_boundary by metis
  next
    case ex
    then show ?thesis using tag_sound search_vectors_within_boundary by metis
  qed
qed

text \<open>
  Claim C1: no result of the keyword search, of a vector search called with a location
  boundary (the content, the summary and the expanded-query searches all are), or of the
  whole retrieval step has a location above the boundary computed from the reader's
  progress.
\<close>

theorem C1_boundary_enforcement:
  "(\<forall>r \<in> set (bm25_search tok c q bid b limit). location (meta r) \<le> b)
   \<and> (\<forall>r \<in> set (search_vectors sim coll qv bid top_k thr (Some b) fm). location (meta r) \<le> b)
   \<and> (\<forall>r \<in> set (retrieve env s bid q qe ees (calculate_location_boundary cur tot)).
         location (meta r) \<le> calculate_location_boundary cur tot)"
proof (intro conjI ballI)
  fix r assume "r \<in> set (bm25_search tok c q bid b limit)"
  then show "location (meta r) \<le> b" by (rule bm25_search_within_boundary)
next
  fix r assume "r \<in> set (search_vectors sim coll qv bid top_k thr (Some b) fm)"
  then show "location (meta r) \<le> b" by (rule search_vectors_within_boundary)
next
  fix r assume "r \<in> set (retrieve env s bid q qe ees (calculate_location_boundary cur tot))"
  then show "location (meta r) \<le> calculate_location_boundary cur tot"
    by (rule retrieve_within_boundary)
qed

text \<open>
  A store with content at locations 3 and 70 and summaries at locations 40 and 60; with
  the boundary 50 only the vectors at 3 and 40 are eligible.
\<close>

definition example_point :: "string \<Rightarrow> real \<Rightarrow> metadata \<Rightarrow> point" where
  "example_point pid s m = \<lparr>point_id = Some pid, vector = [s], payload = m\<rparr>"

definition example_store :: store where
  "example_store =
     \<lparr>collection =
        [example_point ''p1'' (7 / 10) (example_meta ''b1'' 3 ''delta'' ''content''),
         example_point ''p2'' (9 / 10) (example_meta ''b1'' 70 ''omega'' ''content''),
         example_point ''p3'' (8 / 10) (example_meta ''b1'' 40 ''early summary'' ''summary''),
         example_point ''p4'' (9 / 10) (example_meta ''b1'' 60 ''late summary'' ''summary'')],
      cache = example_cache\<rparr>"

definition example_env :: query_env where
  "example_env =
     \<lparr>query_book = [''b1'' \<mapsto> \<lparr>bk_title = ''Book'', bk_content_path = Some ''dir'',
                                  total_locations = Some 100\<rparr>],
      similarity_of = (\<lambda>q v. case v of [] \<Rightarrow> 0 | x # xs \<Rightarrow> x),
      tokenize_query = (\<lambda>q. [q]),
      embed_single_text = (\<lambda>q. Some [1]),
      expand_query = (\<lambda>q t. []),
      judge = (\<lambda>q rs t. None)\<rparr>"

lemma example_retrieve:
  "map (\<lambda>r. (search_method r, location (meta r), score r))
     (retrieve example_env example_store ''b1'' ''q'' [1] [[1]] (calculate_location_boundary 50 100))
   = [(Some ''bm25'', 10, 19 / 20), (Some ''bm25'', 3, 57 / 100), (Some ''bm25'', 1, 19 / 50),
      (Some ''vector'', 40, 8 / 10), (Some ''vector'', 3, 7 / 10),
      (Some ''summary'', 40, 8 / 10),
      (Some ''expanded_vector'', 40, 8 / 10), (Some ''expanded_vector'', 3, 7 / 10)]"
  by (simp add: retrieve_def calculate_location_boundary_def tag_def example_env_def
      example_store_def example_point_def BM25_RESULTS_LIMIT_def
      bm25_search_def load_bm25_index_def example_cache_def enumerate_def
      example_meta_def sorted_desc_def py_slice_to_def py_index_def rescale_def max_score_def
      search_vectors_def client_search_def filter_must_def payload_keyword_def
      payload_integer_def upt_rec)

theorem C1_boundary_enforcement_witness:
  "map (\<lambda>r. location (meta r))
     (retrieve example_env example_store ''b1'' ''q'' [1] [[1]] (calculate_location_boundary 50 100))
   = [10, 3, 1, 40, 3, 40, 40, 3]
   \<and> list_all (\<lambda>r. location (meta r) \<le> calculate_location_boundary 50 100)
       (retrieve example_env example_store ''b1'' ''q'' [1] [[1]] (calculate_location_boundary 50 100))
   \<and> list_all (\<lambda>r. location (meta r) \<le> 50)
       (bm25_search (\<lambda>q. [q]) example_cache ''q'' ''b1'' 50 10)
   \<and> list_all (\<lambda>r. location (meta r) \<le> 50)
       (search_vectors (similarity_of example_env) (collection example_store) [1] ''b1'' 5 0.65
          (Some 50) [(''content_type'', ''summary'')])"
proof -
  have "map (\<lambda>r. location (meta r))
     (retrieve example_env example_store ''b1'' ''q'' [1] [[1]] (calculate_location_boundary 50 100))
     = map (\<lambda>(m, l, s). l) (map (\<lambda>r. (search_method r, location (meta r), score r))
     (retrieve example_env example_store ''b1'' ''q'' [1] [[1]] (calculate_location_boundary 50 100)))"
    by (simp add: comp_def)
  then have "map (\<lambda>r. location (meta r))
     (retrieve example_env example_store ''b1'' ''q'' [1] [[1]] (calculate_location_boundary 50 100))
     = [10, 3, 1, 40, 3, 40, 40, 3]"
    unfolding example_retrieve by simp
  then show ?thesis
    using C1_boundary_enforcement [of "\<lambda>q. [q]" example_cache "''q''" "''b1''" 50 10
        "similarity_of example_env" "collection example_store" "[1]" 5 "0.65"
        "[(''content_type'', ''summary'')]" example_env example_store "[1]" "[[1]]" 50 100]
    by (simp add: list_all_iff)
qed

section \<open>Properties of the score fusion\<close>

lemma normalize_simps [simp]:
  "search_method (normalize mx w r) = search_method r"
  "meta (normalize mx w r) = meta r"
  "score (normalize mx w r) = (if mx > 0 then score r / mx else 0) * w"
  by (simp_all add: normalize_def)

lemma normalize_group_eq:
  "normalize_group m w A
     = map (\<lambda>r. if search_method r = Some m then normalize (max_score (group m A)) w r else r) A"
proof (cases "group m A = []")
  case True
  then have "\<forall>r \<in> set A. search_method r \<noteq> Some m"
    by (simp add: group_def filter_empty_conv)
  then have "map (\<lambda>r. if search_method r = Some m then normalize (max_score (group m A)) w r else r) A
             = A"
    by (intro map_idI) simp
  then show ?thesis using True by (simp add: normalize_group_def)
next
  case False
  then show ?thesis by (simp add: normalize_group_def Let_def)
qed

lemma group_map_other:
  assumes "\<And>r. search_method (f r) = search_method r"
    and "\<And>r. search_method r = Some m \<Longrightarrow> f r = r"
  shows "group m (map f xs) = group m xs"
  using assms by (induction xs) (auto simp: group_def)

lemma group_normalize_group_other:
  "m \<noteq> m' \<Longrightarrow> group m' (normalize_group m w A) = group m' A"
  unfolding normalize_group_eq by (rule group_map_other) auto

text \<open>What the three guarded blocks together do to one result of \<open>A\<close>.\<close>

definition fuse_one :: "real \<Rightarrow> search_result list \<Rightarrow> search_result \<Rightarrow> search_result" where
  "fuse_one w A r =
     (if search_method r = Some ''summary''
        then normalize (max_score (group ''summary'' A)) 0.4 r
      else if search_method r = Some ''vector'' \<and> group ''bm25'' A \<noteq> []
        then normalize (max_score (group ''vector'' A)) (1 - w) r
      else if search_method r = Some ''bm25'' \<and> group ''vector'' A \<noteq> []
        then normalize (max_score (group ''bm25'' A)) w r
      else if search_method r = Some ''expanded_vector''
        then normalize (max_score (group ''expanded_vector'' A)) 0.7 r
      else r)"

lemma fuse_scores_eq: "fuse_scores w A = map (fuse_one w A) A"
proof -
  define r1 where "r1 = normalize_group ''summary'' 0.4 A"
  define r2 where "r2 = (if group ''vector'' r1 \<noteq> [] \<and> group ''bm25'' r1 \<noteq> []
                then normalize_group ''bm25'' w (normalize_group ''vector'' (1 - w) r1)
                else r1)"
  have gv1: "group ''vector'' r1 = group ''vector'' A"
    and gb1: "group ''bm25'' r1 = group ''bm25'' A"
    and ge1: "group ''expanded_vector'' r1 = group ''expanded_vector'' A"
    unfolding r1_def by (simp_all add: group_normalize_group_other)
  have gb2: "group ''bm25'' (normalize_group ''vector'' (1 - w) r1) = group ''bm25'' A"
    by (simp add: group_normalize_group_other gb1)
  have ge2: "group ''expanded_vector'' r2 = group ''expanded_vector'' A"
    unfolding r2_def by (simp add: group_normalize_group_other ge1)
  have e1: "r1 = map (\<lambda>r. if search_method r = Some ''summary''
                then normalize (max_score (group ''summary'' A)) 0.4 r else r) A"
    unfolding r1_def by (rule normalize_group_eq)
  have vec_nonempty: "group ''vector'' A \<noteq> []" if "r \<in> set A" "search_method r = Some ''vector''" for r
    using that by (auto simp: group_def filter_empty_conv)
  have bm_nonempty: "group ''bm25'' A \<noteq> []" if "r \<in> set A" "search_method r = Some ''bm25''" for r
    using that by (auto simp: group_def filter_empty_conv)
  have e2: "r2 = map (\<lambda>r. if search_method r = Some ''summary''
                then normalize (max_score (group ''summary'' A)) 0.4 r
              else if search_method r = Some ''vector'' \<and> group ''bm25'' A \<noteq> []
                then normalize (max_score (group ''vector'' A)) (1 - w) r
              else if search_method r = Some ''bm25'' \<and> group ''vector'' A \<noteq> []
                then normalize (max_score (group ''bm25'' A)) w r
              else r) A"
  proof (cases "group ''vector'' A \<noteq> [] \<and> group ''bm25'' A \<noteq> []")
    case True
    then have "r2 = normalize_group ''bm25'' w (normalize_group ''vector'' (1 - w) r1)"
      by (simp add: r2_def gv1 gb1)
    also have "\<dots> = map (\<lambda>r. if search_method r = Some ''bm25''
                  then normalize (max_score (group ''bm25''
                         (normalize_group ''vector'' (1 - w) r1))) w r else r)
             (normalize_group ''vector'' (1 - w) r1)"
      by (rule normalize_group_eq)
    also have "\<dots> = map (\<lambda>r. if search_method r = Some ''bm25''
                  then normalize (max_score (group ''bm25'' A)) w r else r)
             (map (\<lambda>r. if search_method r = Some ''vector''
                  then normalize (max_score (group ''vector'' A)) (1 - w) r else r) r1)"
      unfolding gb2 by (simp only: normalize_group_eq [of "''vector''" "1 - w" r1] gv1)
    finally show ?thesis
      unfolding e1 using True by (auto simp: comp_def)
  next
    case False
    then have "r2 = r1" by (auto simp: r2_def gv1 gb1)
    moreover have "\<not> (search_method r = Some ''vector'' \<and> group ''bm25'' A \<noteq> [])"
      and "\<not> (search_method r = Some ''bm25'' \<and> group ''vector'' A \<noteq> [])"
      if "r \<in> set A" for r
      using False vec_nonempty [OF that] bm_nonempty [OF that] by auto
    ultimately show ?thesis unfolding e1 by (auto intro!: map_cong)
  qed
  have "fuse_scores w A = normalize_group ''expanded_vector'' 0.7 r2"
    by (simp add: fuse_scores_def Let_def r1_def r2_def)
  also have "\<dots> = map (\<lambda>r. if search_method r = Some ''expanded_vector''
                  then normalize (max_score (group ''expanded_vector'' A)) 0.7 r else r) r2"
    by (simp add: normalize_group_eq ge2)
  also have "\<dots> = map (fuse_one w A) A"
    unfolding e2 by (auto simp: comp_def fuse_one_def)
  finally show ?thesis .
qed

definition example_result :: "string \<Rightarrow> real \<Rightarrow> search_result" where
  "example_result m s =
     \<lparr>result_id = Some ''p1'', score = s, meta = example_meta ''b1'' 3 ''delta'' ''content'',
      search_method = Some m, original_score = None, rerank_score = None\<rparr>"

lemma max_score_group_pos:
  assumes "\<forall>r \<in> set A. 0 < score r" and "r \<in> set A" and "search_method r = Some m"
  shows "0 < max_score (group m A)"
proof -
  have "r \<in> set (group m A)" using assms(2,3) by (simp add: group_def)
  then have "score r \<le> max_score (group m A)" by (rule max_score_ge)
  then show ?thesis using assms(1,2) by force
qed

text \<open>
  Claim C7, as stated, fails: the content-vector scores are normalized only inside the
  block guarded by \<^verbatim>\<open>if vector_results and bm25_results\<close>. With a single vector
  result of score 0.8 and no keyword result the score stays 0.8, where the claim gives
  \<open>0.8 / 0.8 \<times> (1 - 0.4) = 0.6\<close>.
\<close>

theorem C7_fusion_counterexample:
  "group ''bm25'' [example_result ''vector'' (4 / 5)] = []
   \<and> map score (fuse_scores BM25_WEIGHT [example_result ''vector'' (4 / 5)]) = [4 / 5]
   \<and> score (example_result ''vector'' (4 / 5))
        / max_score (group ''vector'' [example_result ''vector'' (4 / 5)]) * (1 - BM25_WEIGHT)
      = 3 / 5"
  by (simp add: fuse_scores_def normalize_group_def group_def example_result_def
      max_score_def BM25_WEIGHT_def)

text \<open>
  Claim C7, amended: with the positive scores that retrieval produces, every summary
  result's score is divided by the summary group's maximum and multiplied by 0.4, and
  every expanded-vector result's score is divided by the expanded group's maximum and
  multiplied by 0.7, whatever the other groups hold. A content-vector result's score is
  divided by the vector group's maximum and multiplied by \<open>1 - keywordWeight\<close>, and a
  keyword result's score is divided by the keyword group's maximum and multiplied by
  \<open>keywordWeight = 0.4\<close>, only when both of these two groups are non-empty; when
  one of them is empty the results of the other are left unchanged.
\<close>

theorem C7_fusion:
  assumes "\<forall>r \<in> set A. 0 < score r" and "i < length A"
  shows "length (fuse_scores BM25_WEIGHT A) = length A
    \<and> meta (fuse_scores BM25_WEIGHT A ! i) = meta (A ! i)
    \<and> search_method (fuse_scores BM25_WEIGHT A ! i) = search_method (A ! i)
    \<and> BM25_WEIGHT = 0.4
    \<and> (search_method (A ! i) = Some ''summary'' \<longrightarrow>
          score (fuse_scores BM25_WEIGHT A ! i)
            = score (A ! i) / max_score (group ''summary'' A) * 0.4)
    \<and> (search_method (A ! i) = Some ''expanded_vector'' \<longrightarrow>
          score (fuse_scores BM25_WEIGHT A ! i)
            = score (A ! i) / max_score (group ''expanded_vector'' A) * 0.7)
    \<and> (search_method (A ! i) = Some ''vector'' \<and> group ''bm25'' A \<noteq> [] \<longrightarrow>
          score (fuse_scores BM25_WEIGHT A ! i)
            = score (A ! i) / max_score (group ''vector'' A) * (1 - BM25_WEIGHT))
    \<and> (search_method (A ! i) = Some ''bm25'' \<and> group ''vector'' A \<noteq> [] \<longrightarrow>
          score (fuse_scores BM25_WEIGHT A ! i)
            = score (A ! i) / max_score (group ''bm25'' A) * BM25_WEIGHT)
    \<and> (search_method (A ! i) = Some ''vector'' \<and> group ''bm25'' A = [] \<longrightarrow>
          fuse_scores BM25_WEIGHT A ! i = A ! i)
    \<and> (search_method (A ! i) = Some ''bm25'' \<and> group ''vector'' A = [] \<longrightarrow>
          fuse_scores BM25_WEIGHT A ! i = A ! i)"
proof -
  have mem: "A ! i \<in> set A" using assms(2) by simp
  have pos: "0 < max_score (group m A)" if "search_method (A ! i) = Some m" for m
    using max_score_group_pos [OF assms(1) mem that] .
  have nth: "fuse_scores BM25_WEIGHT A ! i = fuse_one BM25_WEIGHT A (A ! i)"
    using assms(2) by (simp add: fuse_scores_eq)
  have len: "length (fuse_scores BM25_WEIGHT A) = length A" by (simp add: fuse_scores_eq)
  have m: "meta (fuse_scores BM25_WEIGHT A ! i) = meta (A ! i)"
    and sm: "search_method (fuse_scores BM25_WEIGHT A ! i) = search_method (A ! i)"
    unfolding nth by (simp_all add: fuse_one_def)
  have w: "BM25_WEIGHT = 0.4" by (simp add: BM25_WEIGHT_def)
  have c1: "search_method (A ! i) = Some ''summary'' \<longrightarrow>
          score (fuse_scores BM25_WEIGHT A ! i)
            = score (A ! i) / max_score (group ''summary'' A) * 0.4"
    unfolding nth using pos by (simp add: fuse_one_def)
  have c2: "search_method (A ! i) = Some ''expanded_vector'' \<longrightarrow>
          score (fuse_scores BM25_WEIGHT A ! i)
            = score (A ! i) / max_score (group ''expanded_vector'' A) * 0.7"
    unfolding nth using pos by (simp add: fuse_one_def)
  have c3: "search_method (A ! i) = Some ''vector'' \<and> group ''bm25'' A \<noteq> [] \<longrightarrow>
          score (fuse_scores BM25_WEIGHT A ! i)
            = score (A ! i) / max_score (group ''vector'' A) * (1 - BM25_WEIGHT)"
    unfolding nth using pos by (simp add: fuse_one_def)
  have c4: "search_method (A ! i) = Some ''bm25'' \<and> group ''vector'' A \<noteq> [] \<longrightarrow>
          score (fuse_scores BM25_WEIGHT A ! i)
            = score (A ! i) / max_score (group ''bm25'' A) * BM25_WEIGHT"
    unfolding nth using pos by (simp add: fuse_one_def)
  have c5: "search_method (A ! i) = Some ''vector'' \<and> group ''bm25'' A = [] \<longrightarrow>
          fuse_scores BM25_WEIGHT A ! i = A ! i"
    unfolding nth by (simp add: fuse_one_def)
  have c6: "search_method (A ! i) = Some ''bm25'' \<and> group ''vector'' A = [] \<longrightarrow>
          fuse_scores BM25_WEIGHT A ! i = A ! i"
    unfolding nth by (simp add: fuse_one_def)
  show ?thesis using len m sm w c1 c2 c3 c4 c5 c6 by blast
qed

definition example_results :: "search_result list" where
  "example_results =
     [example_result ''bm25'' (19 / 20), example_result ''vector'' (4 / 5),
      example_result ''vector'' (7 / 10), example_result ''summary'' (4 / 5),
      example_result ''expanded_vector'' (7 / 10)]"

lemma example_groups:
  "max_score (group ''bm25'' example_results) = 19 / 20"
  "max_score (group ''vector'' example_results) = 4 / 5"
  "max_score (group ''summary'' example_results) = 4 / 5"
  "max_score (group ''expanded_vector'' example_results) = 7 / 10"
  "group ''bm25'' example_results \<noteq> []"
  "group ''vector'' example_results \<noteq> []"
  by (simp_all add: example_results_def group_def example_result_def max_score_def)

theorem C7_fusion_witness:
  "score (fuse_scores BM25_WEIGHT example_results ! 0) = 2 / 5
   \<and> score (fuse_scores BM25_WEIGHT example_results ! 1) = 3 / 5
   \<and> score (fuse_scores BM25_WEIGHT example_results ! 2) = 21 / 40
   \<and> score (fuse_scores BM25_WEIGHT example_results ! 3) = 2 / 5
   \<and> score (fuse_scores BM25_WEIGHT example_results ! 4) = 7 / 10
   \<and> fuse_scores BM25_WEIGHT [example_result ''vector'' (4 / 5)] ! 0
       = example_result ''vector'' (4 / 5)"
proof -
  have p: "\<forall>r \<in> set example_results. 0 < score r"
    by (simp add: example_results_def example_result_def)
  have q: "\<forall>r \<in> set [example_result ''vector'' (4 / 5)]. 0 < score r"
    by (simp add: example_result_def)
  have e: "example_results ! 0 = example_result ''bm25'' (19 / 20)"
    "example_results ! 1 = example_result ''vector'' (4 / 5)"
    "example_results ! Suc 0 = example_result ''vector'' (4 / 5)"
    "example_results ! 2 = example_result ''vector'' (7 / 10)"
    "example_results ! 3 = example_result ''summary'' (4 / 5)"
    "example_results ! 4 = example_result ''expanded_vector'' (7 / 10)"
    "length example_results = 5"
    by (simp_all add: example_results_def)
  have s: "search_method (example_result m x) = Some m" "score (example_result m x) = x" for m x
    by (simp_all add: example_result_def)
  have g: "group ''bm25'' [example_result ''vector'' (4 / 5)] = []"
    by (simp add: group_def example_result_def)
  have w: "BM25_WEIGHT = 2 / 5" by (simp add: BM25_WEIGHT_def)
  have r0: "score (fuse_scores BM25_WEIGHT example_results ! 0) = 2 / 5"
    using C7_fusion [OF p, of 0] by (simp add: e s example_groups w)
  have r1: "score (fuse_scores BM25_WEIGHT example_results ! 1) = 3 / 5"
    using C7_fusion [OF p, of 1] by (simp add: e s example_groups w)
  have r2: "score (fuse_scores BM25_WEIGHT example_results ! 2) = 21 / 40"
    using C7_fusion [OF p, of 2] by (simp add: e s example_groups w)
  have r3: "score (fuse_scores BM25_WEIGHT example_results ! 3) = 2 / 5"
    using C7_fusion [OF p, of 3] by (simp add: e s example_groups w)
  have r4: "score (fuse_scores BM25_WEIGHT example_results ! 4) = 7 / 10"
    using C7_fusion [OF p, of 4] by (simp add: e s example_groups w)
  have r5: "fuse_scores BM25_WEIGHT [example_result ''vector'' (4 / 5)] ! 0
       = example_result ''vector'' (4 / 5)"
    using C7_fusion [OF q, of 0] by (simp add: s g)
  show ?thesis using r0 r1 r2 r3 r4 r5 by simp
qed

section \<open>Properties of the reranker\<close>

lemma findall_ratings_no_bracket: "CHR ''['' \<notin> set s \<Longrightarrow> findall_ratings s = []"
proof (induction s rule: findall_ratings.induct)
  case 1
  show ?case by simp
next
  case (2 c cs)
  then have "match_rating (c # cs) = None" by (auto simp: match_rating_def)
  then show ?case using 2 by simp
qed

lemma parse_rankings_fold_range:
  assumes "\<forall>(i, v) \<in> set acc. i < n \<and> 1 \<le> v \<and> v \<le> 10"
    and "(i, v) \<in> set (fold (\<lambda>(a, b) rankings.
             (let index = int_of_digits a - 1; sc = int_of_digits b
              in if 0 \<le> index \<and> index < int n
                 then (nat index, min 10 (max 1 sc)) # rankings
                 else rankings)) ms acc)"
  shows "i < n \<and> 1 \<le> v \<and> v \<le> 10"
  using assms
proof (induction ms arbitrary: acc)
  case Nil
  then show ?case by auto
next
  case (Cons m ms)
  obtain a b where m: "m = (a, b)" by (cases m)
  show ?case
  proof (rule Cons.IH [of "(\<lambda>(a, b) rankings.
             (let index = int_of_digits a - 1; sc = int_of_digits b
              in if 0 \<le> index \<and> index < int n
                 then (nat index, min 10 (max 1 sc)) # rankings
                 else rankings)) m acc"])
    show "\<forall>(i, v) \<in> set ((\<lambda>(a, b) rankings.
             (let index = int_of_digits a - 1; sc = int_of_digits b
              in if 0 \<le> index \<and> index < int n
                 then (nat index, min 10 (max 1 sc)) # rankings
                 else rankings)) m acc). i < n \<and> 1 \<le> v \<and> v \<le> 10"
      using Cons.prems(1) by (auto simp: m Let_def)
    show "(i, v) \<in> set (fold (\<lambda>(a, b) rankings.
             (let index = int_of_digits a - 1; sc = int_of_digits b
              in if 0 \<le> index \<and> index < int n
                 then (nat index, min 10 (max 1 sc)) # rankings
                 else rankings)) ms ((\<lambda>(a, b) rankings.
             (let index = int_of_digits a - 1; sc = int_of_digits b
              in if 0 \<le> index \<and> index < int n
                 then (nat index, min 10 (max 1 sc)) # rankings
                 else rankings)) m acc))"
      using Cons.prems(2) by simp
  qed
qed

lemma parse_rankings_range:
  "(i, v) \<in> set (parse_rankings response n) \<Longrightarrow> i < n \<and> 1 \<le> v \<and> v \<le> 10"
  unfolding parse_rankings_def
  by (rule parse_rankings_fold_range [of "[]"]) simp_all

lemma map_of_parse_rankings:
  "map_of (parse_rankings response n) i = Some v \<Longrightarrow> 1 \<le> v \<and> v \<le> 10"
  using parse_rankings_range [of i v response n] by (auto dest: map_of_SomeD)

text \<open>
  The candidates after the loop that sets \<^verbatim>\<open>rerank_score\<close>: the parsed rating of the
  index, or 1 when the index has none.
\<close>

definition rated :: "(nat \<times> int) list \<Rightarrow> search_result list \<Rightarrow> search_result list" where
  "rated rankings results_to_rerank =
     map (\<lambda>(i, r). r\<lparr>rerank_score := Some (case map_of rankings i of Some v \<Rightarrow> v | None \<Rightarrow> 1)\<rparr>)
       (enumerate results_to_rerank)"

lemma rerank_results_rated:
  assumes "5 \<le> length rs" and "llm q (take 15 rs) t = Some response"
    and "parse_rankings response (length (take 15 rs)) \<noteq> []"
  shows "rerank_results llm q rs t
         = sorted_desc rerank_key (rated (parse_rankings response (length (take 15 rs))) (take 15 rs))
           @ drop 15 rs"
  using assms by (simp add: rerank_results_def Let_def rated_def)

lemma rated_scores:
  assumes "x \<in> set (rated (parse_rankings response n) xs)"
  shows "\<exists>v. rerank_score x = Some v \<and> 1 \<le> v \<and> v \<le> 10"
proof -
  from assms obtain i r where
    x: "x = r\<lparr>rerank_score := Some (case map_of (parse_rankings response n) i of
                                      Some v \<Rightarrow> v | None \<Rightarrow> 1)\<rparr>"
    by (auto simp: rated_def)
  show ?thesis
  proof (cases "map_of (parse_rankings response n) i")
    case None
    then show ?thesis by (simp add: x)
  next
    case (Some v)
    then show ?thesis using map_of_parse_rankings [OF Some] by (simp add: x)
  qed
qed

text \<open>
  Claim C8: when the judge's response yields no usable rating (the call fails, no
  \<open>[index]: [score]\<close> line parses, or every parsed index is out of range), the
  reranker returns the candidates unchanged; it is a total function, so it never fails.
  When at least one rating parses (and there are at least 5 candidates, which the caller
  guarantees by reranking only more than 8), the first 15 candidates, each with its
  parsed rating between 1 and 10 or with the default 1, are sorted by
  \<open>(rerankScore, score)\<close> descending, and the candidates after the 15th follow
  unchanged.
\<close>

theorem C8_rerank:
  "((llm q (take 15 rs) t = None
      \<or> (\<exists>response. llm q (take 15 rs) t = Some response
            \<and> parse_rankings response (length (take 15 rs)) = []))
     \<longrightarrow> rerank_results llm q rs t = rs)
   \<and> ((\<exists>response. llm q (take 15 rs) t = Some response \<and> CHR ''['' \<notin> set response)
     \<longrightarrow> rerank_results llm q rs t = rs)
   \<and> (5 \<le> length rs \<and> llm q (take 15 rs) t = Some response
        \<and> parse_rankings response (length (take 15 rs)) \<noteq> []
     \<longrightarrow> (\<exists>reranked.
            rerank_results llm q rs t = reranked @ drop 15 rs
            \<and> mset reranked
                = mset (rated (parse_rankings response (length (take 15 rs))) (take 15 rs))
            \<and> sorted_wrt (\<lambda>x y. rerank_key x \<ge> rerank_key y) reranked
            \<and> (\<forall>x \<in> set reranked. \<exists>v. rerank_score x = Some v \<and> 1 \<le> v \<and> v \<le> 10)))"
proof (intro conjI impI)
  assume "llm q (take 15 rs) t = None
      \<or> (\<exists>response. llm q (take 15 rs) t = Some response
            \<and> parse_rankings response (length (take 15 rs)) = [])"
  then show "rerank_results llm q rs t = rs"
    by (auto simp: rerank_results_def Let_def)
next
  assume "\<exists>response. llm q (take 15 rs) t = Some response \<and> CHR ''['' \<notin> set response"
  then obtain response where r: "llm q (take 15 rs) t = Some response"
    and nb: "CHR ''['' \<notin> set response" by blast
  have "parse_rankings response (length (take 15 rs)) = []"
    by (simp add: parse_rankings_def findall_ratings_no_bracket [OF nb])
  then show "rerank_results llm q rs t = rs"
    using r by (simp add: rerank_results_def Let_def)
next
  assume a: "5 \<le> length rs \<and> llm q (take 15 rs) t = Some response
        \<and> parse_rankings response (length (take 15 rs)) \<noteq> []"
  define reranked where "reranked = sorted_desc rerank_key
      (rated (parse_rankings response (length (take 15 rs))) (take 15 rs))"
  have eq: "rerank_results llm q rs t = reranked @ drop 15 rs"
    unfolding reranked_def using a by (intro rerank_results_rated) simp_all
  have ms: "mset reranked
      = mset (rated (parse_rankings response (length (take 15 rs))) (take 15 rs))"
    unfolding reranked_def by (rule mset_sorted_desc)
  have srt: "sorted_wrt (\<lambda>x y. rerank_key x \<ge> rerank_key y) reranked"
    unfolding reranked_def by (rule sorted_desc_descending)
  have sc: "\<forall>x \<in> set reranked. \<exists>v. rerank_score x = Some v \<and> 1 \<le> v \<and> v \<le> 10"
    unfolding reranked_def set_sorted_desc using rated_scores by blast
  show "\<exists>reranked.
            rerank_results llm q rs t = reranked @ drop 15 rs
            \<and> mset reranked
                = mset (rated (parse_rankings response (length (take 15 rs))) (take 15 rs))
            \<and> sorted_wrt (\<lambda>x y. rerank_key x \<ge> rerank_key y) reranked
            \<and> (\<forall>x \<in> set reranked. \<exists>v. rerank_score x = Some v \<and> 1 \<le> v \<and> v \<le> 10)"
    using eq ms srt sc by blast
qed

text \<open>Candidates with falling scores, and a judge that rates the candidates 2, 5 and 1.\<close>

definition example_candidates :: "nat \<Rightarrow> search_result list" where
  "example_candidates n = map (\<lambda>i. example_result ''vector'' (1 - real i / 20)) [0 ..< n]"

definition example_judge :: "string \<Rightarrow> search_result list \<Rightarrow> string \<Rightarrow> string option" where
  "example_judge q rs t = Some ''[2]: 9 [5]:7 [99]: 3 junk [1]: 15''"

lemma example_parse:
  "parse_rankings ''[2]: 9 [5]:7 [99]: 3 junk [1]: 15'' 6 = [(0, 10), (4, 7), (1, 9)]"
  "parse_rankings ''[2]: 9 [5]:7 [99]: 3 junk [1]: 15'' 15 = [(0, 10), (4, 7), (1, 9)]"
  by (simp_all add: parse_rankings_def match_rating_def is_digit_def is_space_def
      int_of_digits_def)

lemma length_example_candidates [simp]: "length (example_candidates n) = n"
  by (simp add: example_candidates_def)

lemma example_rerank:
  "map (\<lambda>x. (rerank_score x, score x))
     (rerank_results example_judge ''who did it and why'' (example_candidates 6) ''Book'')
   = [(Some 10, 1), (Some 9, 19 / 20), (Some 7, 4 / 5), (Some 1, 9 / 10), (Some 1, 17 / 20),
      (Some 1, 3 / 4)]"
proof -
  have "rerank_results example_judge ''who did it and why'' (example_candidates 6) ''Book''
        = sorted_desc rerank_key (rated [(0, 10), (4, 7), (1, 9)] (example_candidates 6))"
    using rerank_results_rated [of "example_candidates 6" example_judge "''who did it and why''"
        "''Book''" "''[2]: 9 [5]:7 [99]: 3 junk [1]: 15''"]
    by (simp add: example_judge_def example_parse)
  also have "map (\<lambda>x. (rerank_score x, score x)) \<dots>
     = [(Some 10, 1), (Some 9, 19 / 20), (Some 7, 4 / 5), (Some 1, 9 / 10), (Some 1, 17 / 20),
        (Some 1, 3 / 4)]"
    by (simp add: example_candidates_def rated_def enumerate_def sorted_desc_def rerank_key_def
        example_result_def upt_rec less_eq_prod_def less_prod_def)
  finally show ?thesis .
qed

theorem C8_rerank_witness:
  "rerank_results (\<lambda>q rs t. None) ''who did it and why'' (example_candidates 6) ''Book''
     = example_candidates 6
   \<and> rerank_results (\<lambda>q rs t. Some ''no ratings here'') ''who did it and why''
        (example_candidates 6) ''Book'' = example_candidates 6
   \<and> map (\<lambda>x. (rerank_score x, score x))
        (rerank_results example_judge ''who did it and why'' (example_candidates 6) ''Book'')
      = [(Some 10, 1), (Some 9, 19 / 20), (Some 7, 4 / 5), (Some 1, 9 / 10), (Some 1, 17 / 20),
         (Some 1, 3 / 4)]
   \<and> sorted_wrt (\<lambda>x y. rerank_key x \<ge> rerank_key y)
        (rerank_results example_judge ''who did it and why'' (example_candidates 6) ''Book'')
   \<and> drop 15 (rerank_results example_judge ''who did it and why'' (example_candidates 17) ''Book'')
      = drop 15 (example_candidates 17)"
proof -
  have a: "rerank_results (\<lambda>q rs t. None) ''who did it and why'' (example_candidates 6) ''Book''
     = example_candidates 6"
    using C8_rerank [of "\<lambda>q rs t. None" "''who did it and why''" "example_candidates 6" "''Book''"]
    by simp
  have b: "rerank_results (\<lambda>q rs t. Some ''no ratings here'') ''who did it and why''
        (example_candidates 6) ''Book'' = example_candidates 6"
    using C8_rerank [of "\<lambda>q rs t. Some ''no ratings here''" "''who did it and why''"
        "example_candidates 6" "''Book''"]
    by simp
  have l6: "length (example_candidates 6) = 6" "length (example_candidates 17) = 17"
    by simp_all
  obtain reranked where
    r: "rerank_results example_judge ''who did it and why'' (example_candidates 6) ''Book''
          = reranked @ drop 15 (example_candidates 6)"
    and s: "sorted_wrt (\<lambda>x y. rerank_key x \<ge> rerank_key y) reranked"
    using C8_rerank [of example_judge "''who did it and why''" "example_candidates 6" "''Book''"
        "''[2]: 9 [5]:7 [99]: 3 junk [1]: 15''"]
    by (auto simp: example_judge_def l6 example_parse)
  have c: "sorted_wrt (\<lambda>x y. rerank_key x \<ge> rerank_key y)
        (rerank_results example_judge ''who did it and why'' (example_candidates 6) ''Book'')"
    using r s by (simp add: l6)
  obtain reranked' where
    r': "rerank_results example_judge ''who did it and why'' (example_candidates 17) ''Book''
          = reranked' @ drop 15 (example_candidates 17)"
    and m: "mset reranked' = mset (rated (parse_rankings ''[2]: 9 [5]:7 [99]: 3 junk [1]: 15''
              (length (take 15 (example_candidates 17)))) (take 15 (example_candidates 17)))"
    using C8_rerank [of example_judge "''who did it and why''" "example_candidates 17" "''Book''"
        "''[2]: 9 [5]:7 [99]: 3 junk [1]: 15''"]
    by (auto simp: example_judge_def l6 example_parse)
  have "length reranked' = 15"
    using arg_cong [OF m, of size] by (simp add: rated_def enumerate_def l6)
  then have d: "drop 15 (rerank_results example_judge ''who did it and why''
                  (example_candidates 17) ''Book'') = drop 15 (example_candidates 17)"
    unfolding r' by simp
  show ?thesis using a b c d example_rerank by simp
qed

section \<open>The boundary through the whole query pipeline\<close>

text \<open>
  Fusion, deduplication, reranking and truncation keep the payload of every result they
  pass on, so the results that become the context of the answer are within the boundary
  as well.
\<close>

lemma fuse_scores_meta:
  assumes "r \<in> set (fuse_scores w A)"
  shows "\<exists>r0 \<in> set A. meta r = meta r0"
proof -
  from assms obtain r0 where "r0 \<in> set A" "r = fuse_one w A r0"
    by (auto simp: fuse_scores_eq)
  then show ?thesis by (auto simp: fuse_one_def)
qed

lemma set_dedup_loop: "set (dedup_loop xs seen) \<subseteq> set xs"
  by (induction xs seen rule: dedup_loop.induct) (auto simp: Let_def)

lemma set_deduplicate: "set (deduplicate A) \<subseteq> set A"
  using set_dedup_loop [of "sorted_desc score A" "{}"]
  by (simp add: deduplicate_def set_sorted_desc)

lemma rated_meta:
  assumes "x \<in> set (rated rankings xs)"
  shows "\<exists>y \<in> set xs. meta x = meta y"
proof -
  from assms obtain i y where "(i, y) \<in> set (enumerate xs)"
    and x: "x = y\<lparr>rerank_score := Some (case map_of rankings i of Some v \<Rightarrow> v | None \<Rightarrow> 1)\<rparr>"
    by (auto simp: rated_def)
  then have "y \<in> set xs" by (auto simp: in_set_enumerate)
  then show ?thesis using x by auto
qed

lemma rerank_results_meta:
  assumes "x \<in> set (rerank_results llm q rs t)"
  shows "\<exists>y \<in> set rs. meta x = meta y"
proof (cases "\<exists>response. 5 \<le> length rs \<and> llm q (take 15 rs) t = Some response
                \<and> parse_rankings response (length (take 15 rs)) \<noteq> []")
  case True
  then obtain response where c: "5 \<le> length rs" "llm q (take 15 rs) t = Some response"
    "parse_rankings response (length (take 15 rs)) \<noteq> []" by blast
  from assms have "x \<in> set (rated (parse_rankings response (length (take 15 rs))) (take 15 rs))
                  \<or> x \<in> set (drop 15 rs)"
    unfolding rerank_results_rated [of rs llm q t response, OF c] by (simp add: set_sorted_desc)
  then show ?thesis
  proof
    assume "x \<in> set (rated (parse_rankings response (length (take 15 rs))) (take 15 rs))"
    then obtain y where y: "y \<in> set (take 15 rs)" "meta x = meta y" using rated_meta by blast
    from y(1) have "y \<in> set rs" by (rule in_set_takeD)
    then show ?thesis using y(2) by blast
  next
    assume "x \<in> set (drop 15 rs)"
    then have "x \<in> set rs" by (rule in_set_dropD)
    then show ?thesis by blast
  qed
next
  case False
  then have "rerank_results llm q rs t = rs"
    by (auto simp: rerank_results_def Let_def split: option.splits)
  then show ?thesis using assms by auto
qed

lemma process_query_results_within_boundary:
  assumes "process_query_results env s bid q cur = Inr rs" and "r \<in> set rs"
  shows "\<exists>bk. query_book env bid = Some bk
           \<and> location (meta r) \<le> calculate_location_boundary cur (py_or (total_locations bk) 100)"
proof -
  from assms(1) obtain bk b qe ees where bk: "query_book env bid = Some bk"
    and b: "query_location_boundary cur (total_locations bk) = Inr b"
    and rs: "rs = [] \<or> rs = take 25 (rerank_results (judge env) q
                  (deduplicate (fuse_scores BM25_WEIGHT (retrieve env s bid q qe ees b))) (bk_title bk))
             \<or> rs = take 10 (deduplicate (fuse_scores BM25_WEIGHT (retrieve env s bid q qe ees b)))"
    by (auto simp: process_query_results_def Let_def split: option.splits sum.splits if_splits)
  have b_eq: "b = calculate_location_boundary cur (py_or (total_locations bk) 100)"
    using b by (auto simp: query_location_boundary_def Let_def split: if_splits)
  define U where "U = deduplicate (fuse_scores BM25_WEIGHT (retrieve env s bid q qe ees b))"
  have U: "location (meta u) \<le> b" if "u \<in> set U" for u
  proof -
    from that have "u \<in> set (fuse_scores BM25_WEIGHT (retrieve env s bid q qe ees b))"
      unfolding U_def using set_deduplicate by blast
    then obtain r0 where "r0 \<in> set (retrieve env s bid q qe ees b)" "meta u = meta r0"
      using fuse_scores_meta by blast
    then show ?thesis using retrieve_within_boundary by metis
  qed
  from rs assms(2) have "(\<exists>u \<in> set U. meta r = meta u)"
  proof (elim disjE)
    assume "rs = []" then show ?thesis using assms(2) by simp
  next
    assume "rs = take 25 (rerank_results (judge env) q
                  (deduplicate (fuse_scores BM25_WEIGHT (retrieve env s bid q qe ees b))) (bk_title bk))"
    then have "r \<in> set (rerank_results (judge env) q U (bk_title bk))"
      using assms(2) unfolding U_def by (meson in_set_takeD)
    then show ?thesis by (rule rerank_results_meta)
  next
    assume "rs = take 10 (deduplicate (fuse_scores BM25_WEIGHT (retrieve env s bid q qe ees b)))"
    then have "r \<in> set U" using assms(2) unfolding U_def by (meson in_set_takeD)
    then show ?thesis by blast
  qed
  then show ?thesis using U bk b_eq by auto
qed

end
